theory Spec2Isabelle
  imports Complex_Main "HOL-Library.Char_ord" "HOL-Library.List_Lexorder" "HOL-Library.AList"
begin

section \<open>scripts/run\_dpo.py: evaluation of a DPO reward model on preference pairs\<close>

text \<open>
  The script is a single \<^verbatim>\<open>main\<close> that calls library functions in sequence. Every
  library call is a field of the record \<open>libs\<close> and returns either a raised exception
  (\<open>Inl\<close>) or a value (\<open>Inr\<close>); the objects the libraries hand back (conversation
  template, tokenizer, models, the DPO inference object, tokenized rows, collated batches)
  are opaque to the script and have the type parameter \<open>'o\<close>.
\<close>

subsection \<open>Exceptions\<close>

datatype py_error =
    LibraryError string
  | IndexError
  | KeyError
  | TypeError
  | AttributeError
  | ZeroDivisionError
  | ValueError
  | FileExistsError
  | FileNotFoundError
  | IsADirectoryError
  | SystemExit int

subsection \<open>Scores\<close>

text \<open>
  A Python float is a finite (dyadic) rational, an infinity or NaN. Only the comparison
  \<^verbatim>\<open>chosen > rejected\<close> is applied to scores, and it is exact on floats.
\<close>

datatype pyfloat = Finite rat | PosInf | NegInf | NaN

fun float_gt :: "pyfloat \<Rightarrow> pyfloat \<Rightarrow> bool" where
  "float_gt NaN _ = False"
| "float_gt _ NaN = False"
| "float_gt (Finite a) (Finite b) = (b < a)"
| "float_gt (Finite _) PosInf = False"
| "float_gt (Finite _) NegInf = True"
| "float_gt PosInf PosInf = False"
| "float_gt PosInf _ = True"
| "float_gt NegInf _ = False"

text \<open>
  The values found in a result dictionary such as
  \<^verbatim>\<open>{'label': 'LABEL_1', 'score': 0.6826171875}\<close>: strings and floats.
  \<^verbatim>\<open>a > b\<close> compares two floats numerically, two strings lexicographically and
  raises TypeError on a string against a float.
\<close>

datatype pyval = PStr string | PFloat pyfloat

fun py_gt :: "pyval \<Rightarrow> pyval \<Rightarrow> py_error + bool" where
  "py_gt (PFloat a) (PFloat b) = Inr (float_gt a b)"
| "py_gt (PStr a) (PStr b) = Inr (b < a)"
| "py_gt _ _ = Inl TypeError"

text \<open>
  What \<^verbatim>\<open>dpo.inference_step\<close> returns for one side of a batch: a list of result
  dictionaries, or a one-dimensional tensor of scores.
\<close>

datatype rewards = DictList "(string \<times> pyval) list list" | Tensor "pyfloat list"

text \<open>\<^verbatim>\<open>len\<close> of such a value: the number of entries.\<close>

fun len_rewards :: "rewards \<Rightarrow> nat" where
  "len_rewards (DictList ds) = length ds"
| "len_rewards (Tensor ts) = length ts"

subsection \<open>Records of the data set\<close>

record row =
  text_chosen :: string
  text_rejected :: string

text \<open>A row of \<open>out_dataset\<close>: the columns \<^verbatim>\<open>results\<close> and \<^verbatim>\<open>subset\<close> added.\<close>

type_synonym out_row = "row \<times> int \<times> string"

definition col_results :: "out_row \<Rightarrow> int" where
  "col_results example = fst (snd example)"

definition col_subset :: "out_row \<Rightarrow> string" where
  "col_subset example = snd (snd example)"

subsection \<open>The library calls\<close>

datatype jvalue = JString string | JNumber rat

record upload_request =
  path_or_fileobj :: string
  path_in_repo :: string
  repo_id :: string
  repo_type :: string
  commit_message :: string

text \<open>
  The calls that act on the file system. Besides what the state of the file system
  decides, such a call can fail for reasons outside the model (permissions, a full
  disk): \<open>os_fault\<close> says for each call whether it does, and with which exception.
\<close>

datatype os_call = Makedirs string | Remove string | Open string | Write string

record 'o libs =
  Accelerator :: "py_error + 'o"
  get_conv_template :: "string \<Rightarrow> py_error + 'o"
  AutoTokenizer_from_pretrained :: "string \<Rightarrow> py_error + 'o"
  load_eval_dataset :: "bool \<Rightarrow> 'o \<Rightarrow> 'o \<Rightarrow> py_error + (row list \<times> string list)"
  AutoModelForCausalLM_from_pretrained :: "string \<Rightarrow> py_error + 'o"
  DPOInference :: "'o \<Rightarrow> 'o \<Rightarrow> 'o \<Rightarrow> 'o \<Rightarrow> py_error + 'o"
  tokenize_row :: "'o \<Rightarrow> row \<Rightarrow> py_error + 'o"
  collate_fn :: "'o \<Rightarrow> 'o \<Rightarrow> 'o list \<Rightarrow> py_error + 'o"
  inference_step :: "'o \<Rightarrow> 'o \<Rightarrow> py_error + (rewards \<times> rewards)"
  json_dumps :: "(string \<times> jvalue) list \<Rightarrow> nat \<Rightarrow> bool \<Rightarrow> py_error + string"
  upload_file :: "upload_request \<Rightarrow> py_error + string"
  os_fault :: "os_call \<Rightarrow> py_error option"

subsection \<open>Batching\<close>

text \<open>
  \<^verbatim>\<open>DataLoader(tokenized_dataset, batch_size=BATCH_SIZE, shuffle=False, drop_last=False)\<close>:
  the sequential sampler cuts the data set into consecutive pieces of \<open>batch_size\<close>
  elements, the last one possibly shorter; a batch size that is not positive is refused
  with ValueError when the loader is built.
\<close>

function chunks :: "nat \<Rightarrow> 'a list \<Rightarrow> 'a list list" where
  "chunks n xs = (if n = 0 \<or> xs = [] then [] else take n xs # chunks n (drop n xs))"
  by pat_completeness auto
termination
  by (relation "measure (\<lambda>(n, xs). length xs)") auto

definition DataLoader :: "'a list \<Rightarrow> int \<Rightarrow> py_error + 'a list list" where
  "DataLoader tokenized_dataset bs =
     (if bs \<le> 0 then Inl ValueError
      else Inr (chunks (nat bs) tokenized_dataset))"

subsection \<open>The inference loop (lines 145-164)\<close>

text \<open>\<^verbatim>\<open>result["score"]\<close> on a dictionary: KeyError when the key is missing.\<close>

definition get_score :: "(string \<times> pyval) list \<Rightarrow> py_error + pyval" where
  "get_score result = (case map_of result ''score'' of None \<Rightarrow> Inl KeyError | Some v \<Rightarrow> Inr v)"

text \<open>A list comprehension whose body may raise: the first exception ends it.\<close>

fun comprehension :: "('a \<Rightarrow> py_error + 'b) \<Rightarrow> 'a list \<Rightarrow> py_error + 'b list" where
  "comprehension f [] = Inr []"
| "comprehension f (x # xs) =
     (case f x of Inl e \<Rightarrow> Inl e
      | Inr y \<Rightarrow> (case comprehension f xs of Inl e \<Rightarrow> Inl e | Inr ys \<Rightarrow> Inr (y # ys)))"

text \<open>
  Lines 153-159. \<^verbatim>\<open>rewards_chosen[0]\<close> raises IndexError on an empty list or tensor.
  When its first element is a dictionary, both sides are read as lists of dictionaries:
  iterating a tensor there yields scalars, on which \<^verbatim>\<open>["score"]\<close> raises IndexError.
  Otherwise both sides are read as tensors: \<^verbatim>\<open>.cpu()\<close> on a list raises AttributeError.
\<close>

definition scores_of_dicts :: "rewards \<Rightarrow> py_error + pyval list" where
  "scores_of_dicts r =
     (case r of DictList ds \<Rightarrow> comprehension get_score ds
      | Tensor ts \<Rightarrow> (if ts = [] then Inr [] else Inl IndexError))"

definition scores_of_tensor :: "rewards \<Rightarrow> py_error + pyval list" where
  "scores_of_tensor r =
     (case r of DictList ds \<Rightarrow> Inl AttributeError
      | Tensor ts \<Rightarrow> Inr (map PFloat ts))"

definition extract_scores :: "rewards \<Rightarrow> rewards \<Rightarrow> py_error + (pyval list \<times> pyval list)" where
  "extract_scores rewards_chosen rewards_rejected =
     (case rewards_chosen of
        DictList [] \<Rightarrow> Inl IndexError
      | Tensor [] \<Rightarrow> Inl IndexError
      | DictList (d # ds) \<Rightarrow>
          (case scores_of_dicts rewards_chosen of Inl e \<Rightarrow> Inl e
           | Inr score_chosen \<Rightarrow>
               (case scores_of_dicts rewards_rejected of Inl e \<Rightarrow> Inl e
                | Inr score_rejected \<Rightarrow> Inr (score_chosen, score_rejected)))
      | Tensor (t # ts) \<Rightarrow>
          (case scores_of_tensor rewards_rejected of Inl e \<Rightarrow> Inl e
           | Inr score_rejected \<Rightarrow> Inr (map PFloat (t # ts), score_rejected)))"

text \<open>
  Lines 161-164: for each pair of the zip, append 1 to \<open>results\<close> when
  \<^verbatim>\<open>chosen > rejected\<close> and 0 otherwise. The list \<open>results\<close> is the accumulator.
\<close>

fun append_results :: "int list \<Rightarrow> (pyval \<times> pyval) list \<Rightarrow> py_error + int list" where
  "append_results results [] = Inr results"
| "append_results results ((chosen, rejected) # ps) =
     (case py_gt chosen rejected of Inl e \<Rightarrow> Inl e
      | Inr b \<Rightarrow> append_results (results @ [if b then 1 else 0]) ps)"

text \<open>One iteration of the loop over the batches: collate, infer, extract, compare.\<close>

definition loop_body :: "'o libs \<Rightarrow> 'o \<Rightarrow> 'o \<Rightarrow> int list \<Rightarrow> 'o list \<Rightarrow> py_error + int list" where
  "loop_body env tok dpo results samples =
     (case collate_fn env tok dpo samples of Inl e \<Rightarrow> Inl e
      | Inr batch \<Rightarrow>
     (case inference_step env dpo batch of Inl e \<Rightarrow> Inl e
      | Inr (rewards_chosen, rewards_rejected) \<Rightarrow>
     (case extract_scores rewards_chosen rewards_rejected of Inl e \<Rightarrow> Inl e
      | Inr (score_chosen, score_rejected) \<Rightarrow>
          append_results results (zip score_chosen score_rejected))))"

fun inference_loop :: "'o libs \<Rightarrow> 'o \<Rightarrow> 'o \<Rightarrow> int list \<Rightarrow> 'o list list \<Rightarrow> py_error + int list" where
  "inference_loop env tok dpo results [] = Inr results"
| "inference_loop env tok dpo results (samples # rest) =
     (case loop_body env tok dpo results samples of Inl e \<Rightarrow> Inl e
      | Inr results' \<Rightarrow> inference_loop env tok dpo results' rest)"

text \<open>
  The pairs \<^verbatim>\<open>zip(score_chosen, score_rejected)\<close> that the loop body compares for one
  batch, and for all batches in the order of the loop (empty for a batch whose library
  calls raise). It names the pairs the loop processes; the loop itself is
  \<open>inference_loop\<close>.
\<close>

definition pairs_of_batch :: "'o libs \<Rightarrow> 'o \<Rightarrow> 'o \<Rightarrow> 'o list \<Rightarrow> (pyval \<times> pyval) list" where
  "pairs_of_batch env tok dpo samples =
     (case collate_fn env tok dpo samples of Inl e \<Rightarrow> []
      | Inr batch \<Rightarrow>
     (case inference_step env dpo batch of Inl e \<Rightarrow> []
      | Inr (rewards_chosen, rewards_rejected) \<Rightarrow>
     (case extract_scores rewards_chosen rewards_rejected of Inl e \<Rightarrow> []
      | Inr (score_chosen, score_rejected) \<Rightarrow> zip score_chosen score_rejected)))"

definition processed_pairs :: "'o libs \<Rightarrow> 'o \<Rightarrow> 'o \<Rightarrow> 'o list list \<Rightarrow> (pyval \<times> pyval) list" where
  "processed_pairs env tok dpo batches = concat (map (pairs_of_batch env tok dpo) batches)"

subsection \<open>Command line (lines 42-57)\<close>

text \<open>
  The \<^verbatim>\<open>add_argument\<close> calls of \<^verbatim>\<open>get_args\<close>, in their order: a flag with
  \<^verbatim>\<open>type=str\<close> and its default (\<^verbatim>\<open>None\<close> is \<open>None\<close>), with \<^verbatim>\<open>type=int\<close> and its
  default, or with \<^verbatim>\<open>action="store_true"\<close>.
\<close>

datatype arg_kind = StrArg "string option" | IntArg int | StoreTrue

definition get_args :: "(string \<times> arg_kind) list" where
  "get_args =
     [(''--model'', StrArg (Some ''natolambert/gpt2-dummy-rm'')),
      (''--ref_model'', StrArg (Some ''natolambert/gpt2-dummy-rm'')),
      (''--tokenizer'', StrArg None),
      (''--chat_template'', StrArg (Some ''tulu'')),
      (''--do_not_save'', StoreTrue),
      (''--batch_size'', IntArg 64),
      (''--pref_sets'', StoreTrue)]"

text \<open>The value of an argument whose flag is absent; \<^verbatim>\<open>store_true\<close> gives False.\<close>

datatype arg_value = VStr string | VNone | VInt int | VBool bool

fun default_value :: "arg_kind \<Rightarrow> arg_value" where
  "default_value (StrArg None) = VNone"
| "default_value (StrArg (Some d)) = VStr d"
| "default_value (IntArg d) = VInt d"
| "default_value StoreTrue = VBool False"

text \<open>The parsed namespace \<^verbatim>\<open>args\<close>.\<close>

record args =
  args_model :: string
  args_ref_model :: string
  args_tokenizer :: "string option"
  args_chat_template :: string
  args_do_not_save :: bool
  args_batch_size :: int
  args_pref_sets :: bool

subsection \<open>Loading (lines 83-143)\<close>

text \<open>
  Line 91: \<^verbatim>\<open>args.tokenizer if args.tokenizer else args.model\<close>. \<^verbatim>\<open>None\<close> and the
  empty string are false.
\<close>

definition tokenizer_path :: "args \<Rightarrow> string" where
  "tokenizer_path a =
     (case args_tokenizer a of None \<Rightarrow> args_model a
      | Some t \<Rightarrow> (if t = [] then args_model a else t))"

record 'o loaded =
  ld_tokenizer :: 'o
  ld_dataset :: "row list"
  ld_subsets :: "string list"
  ld_dpo :: 'o
  ld_dataloader :: "'o list list"

text \<open>
  The library calls of lines 66-143 in their order. \<^verbatim>\<open>dataset.map(dpo.tokenize_row)\<close>
  applies \<^verbatim>\<open>tokenize_row\<close> to the rows in order. The logging calls are left out.
\<close>

definition load :: "'o libs \<Rightarrow> args \<Rightarrow> py_error + 'o loaded" where
  "load env a =
     (case Accelerator env of Inl e \<Rightarrow> Inl e | Inr accelerator \<Rightarrow>
     (case get_conv_template env (args_chat_template a) of Inl e \<Rightarrow> Inl e | Inr conv \<Rightarrow>
     (case AutoTokenizer_from_pretrained env (tokenizer_path a) of Inl e \<Rightarrow> Inl e | Inr tok \<Rightarrow>
     (case load_eval_dataset env (\<not> args_pref_sets a) conv tok of Inl e \<Rightarrow> Inl e
      | Inr (dataset, subsets) \<Rightarrow>
     (case AutoModelForCausalLM_from_pretrained env (args_model a) of Inl e \<Rightarrow> Inl e
      | Inr model \<Rightarrow>
     (case AutoModelForCausalLM_from_pretrained env (args_ref_model a) of Inl e \<Rightarrow> Inl e
      | Inr ref_model \<Rightarrow>
     (case DPOInference env model ref_model tok accelerator of Inl e \<Rightarrow> Inl e | Inr dpo \<Rightarrow>
     (case comprehension (tokenize_row env dpo) dataset of Inl e \<Rightarrow> Inl e
      | Inr tokenized_dataset \<Rightarrow>
     (case DataLoader tokenized_dataset (args_batch_size a) of Inl e \<Rightarrow> Inl e
      | Inr dataloader \<Rightarrow>
         Inr \<lparr>ld_tokenizer = tok, ld_dataset = dataset, ld_subsets = subsets,
              ld_dpo = dpo, ld_dataloader = dataloader\<rparr>)))))))))"

subsection \<open>Grouping the results (lines 170-184)\<close>

text \<open>
  \<^verbatim>\<open>dataset.add_column(name, column)\<close> needs one value per row and raises otherwise.
\<close>

definition add_column :: "'a list \<Rightarrow> 'b list \<Rightarrow> py_error + ('a \<times> 'b) list" where
  "add_column dataset column =
     (if length column \<noteq> length dataset then Inl (LibraryError ''add_column'')
      else Inr (zip dataset column))"

definition make_out_dataset :: "row list \<Rightarrow> int list \<Rightarrow> string list \<Rightarrow> py_error + out_row list" where
  "make_out_dataset dataset results subsets =
     (case add_column dataset results of Inl e \<Rightarrow> Inl e
      | Inr with_results \<Rightarrow>
     (case add_column with_results subsets of Inl e \<Rightarrow> Inl e
      | Inr with_subset \<Rightarrow> Inr (map (\<lambda>((r, x), s). (r, x, s)) with_subset)))"

text \<open>\<^verbatim>\<open>np.unique\<close>: the distinct labels, sorted.\<close>

definition np_unique :: "string list \<Rightarrow> string list" where
  "np_unique subsets = sort (remdups subsets)"

text \<open>
  Lines 179-184, the dictionary \<open>results_grouped\<close> as the accumulator. A Python
  dictionary keeps the position of a key that is assigned again, as \<open>AList.update\<close>
  does. The quotient of two integers is a float; the model keeps the exact quotient.
\<close>

fun group_loop :: "out_row list \<Rightarrow> string list \<Rightarrow> (string \<times> jvalue) list
    \<Rightarrow> py_error + (string \<times> jvalue) list" where
  "group_loop out_dataset [] results_grouped = Inr results_grouped"
| "group_loop out_dataset (s # rest) results_grouped =
     (let subset_dataset = filter (\<lambda>example. col_subset example = s) out_dataset;
          num_correct = sum_list (map col_results subset_dataset);
          num_total = length subset_dataset
      in if num_total = 0 then Inl ZeroDivisionError
         else group_loop out_dataset rest
                (AList.update s (JNumber (of_int num_correct / of_nat num_total)) results_grouped))"

definition group_results :: "args \<Rightarrow> row list \<Rightarrow> int list \<Rightarrow> string list
    \<Rightarrow> py_error + (string \<times> jvalue) list" where
  "group_results a dataset results subsets =
     (case make_out_dataset dataset results subsets of Inl e \<Rightarrow> Inl e
      | Inr out_dataset \<Rightarrow>
          group_loop out_dataset (np_unique subsets)
            (AList.update ''chat_template'' (JString (args_chat_template a))
              (AList.update ''model'' (JString (args_model a)) [])))"

subsection \<open>The local file and the upload (lines 190-215)\<close>

text \<open>
  The file system maps a path to a regular file with its content or to a directory.
  The world the script acts on is the file system and the sequence of
  \<^verbatim>\<open>api.upload_file\<close> calls made to the remote repository.
\<close>

datatype node = File string | Dir

type_synonym filesystem = "string \<Rightarrow> node option"

record world =
  fs :: filesystem
  upload_calls :: "upload_request list"

text \<open>
  \<^verbatim>\<open>os.path.dirname\<close>: everything up to the last slash, without trailing slashes
  unless it consists of slashes only.
\<close>

definition os_path_dirname :: "string \<Rightarrow> string" where
  "os_path_dirname p =
     (let head = rev (dropWhile (\<lambda>c. c \<noteq> CHR ''/'') (rev p))
      in if head \<noteq> [] \<and> \<not> list_all (\<lambda>c. c = CHR ''/'') head
         then rev (dropWhile (\<lambda>c. c = CHR ''/'') (rev head)) else head)"

text \<open>
  \<^verbatim>\<open>os.makedirs(dirname, exist_ok=True)\<close> for a directory directly under the working
  directory, as \<^verbatim>\<open>results\<close> is: an existing directory is accepted, an existing regular
  file raises FileExistsError.
\<close>

definition os_makedirs :: "'o libs \<Rightarrow> filesystem \<Rightarrow> string \<Rightarrow> py_error + filesystem" where
  "os_makedirs env f d =
     (case os_fault env (Makedirs d) of Some e \<Rightarrow> Inl e
      | None \<Rightarrow>
          (case f d of Some (File c) \<Rightarrow> Inl FileExistsError
           | _ \<Rightarrow> Inr (f(d \<mapsto> Dir))))"

text \<open>\<^verbatim>\<open>os.path.isfile\<close> returns False where the underlying call fails; it never raises.\<close>

definition os_path_isfile :: "filesystem \<Rightarrow> string \<Rightarrow> bool" where
  "os_path_isfile f p = (case f p of Some (File c) \<Rightarrow> True | _ \<Rightarrow> False)"

definition os_remove :: "'o libs \<Rightarrow> filesystem \<Rightarrow> string \<Rightarrow> py_error + filesystem" where
  "os_remove env f p =
     (case os_fault env (Remove p) of Some e \<Rightarrow> Inl e
      | None \<Rightarrow>
          (case f p of None \<Rightarrow> Inl FileNotFoundError
           | Some Dir \<Rightarrow> Inl IsADirectoryError
           | Some (File c) \<Rightarrow> Inr (f(p := None))))"

text \<open>
  \<^verbatim>\<open>open(path, "w")\<close>: the directory of the path must exist and the path must not be
  a directory; the file is created or truncated. \<^verbatim>\<open>f.write(dumped)\<close> and the close at
  the end of the \<^verbatim>\<open>with\<close> block leave exactly \<open>dumped\<close> in it.
\<close>

definition open_w :: "'o libs \<Rightarrow> filesystem \<Rightarrow> string \<Rightarrow> py_error + filesystem" where
  "open_w env f p =
     (case os_fault env (Open p) of Some e \<Rightarrow> Inl e
      | None \<Rightarrow>
          (if os_path_dirname p \<noteq> [] \<and> f (os_path_dirname p) \<noteq> Some Dir
           then Inl FileNotFoundError
           else if f p = Some Dir then Inl IsADirectoryError
           else Inr (f(p \<mapsto> File []))))"

definition file_write :: "'o libs \<Rightarrow> filesystem \<Rightarrow> string \<Rightarrow> string \<Rightarrow> py_error + filesystem" where
  "file_write env f p dumped =
     (case os_fault env (Write p) of Some e \<Rightarrow> Inl e
      | None \<Rightarrow> Inr (f(p \<mapsto> File dumped)))"

definition path :: string where
  "path = ''results/metrics.json''"

definition EVAL_REPO :: string where
  "EVAL_REPO = ''ai2-adapt-dev/HERM-Results''"

text \<open>Lines 192-203. The file system is returned as far as it got when a call raises.\<close>

definition save_results :: "'o libs \<Rightarrow> filesystem \<Rightarrow> string \<Rightarrow> filesystem \<times> (py_error + unit)" where
  "save_results env f dumped =
     (let dirname = os_path_dirname path
      in case (if dirname \<noteq> [] then os_makedirs env f dirname else Inr f) of
           Inl e \<Rightarrow> (f, Inl e)
         | Inr f1 \<Rightarrow>
        (case (if os_path_isfile f1 path then os_remove env f1 path else Inr f1) of
           Inl e \<Rightarrow> (f1, Inl e)
         | Inr f2 \<Rightarrow>
        (case open_w env f2 path of
           Inl e \<Rightarrow> (f2, Inl e)
         | Inr f3 \<Rightarrow>
        (case file_write env f3 path dumped of
           Inl e \<Rightarrow> (f3, Inl e)
         | Inr f4 \<Rightarrow> (f4, Inr ())))))"

text \<open>Lines 206-215.\<close>

definition upload_request_of :: "args \<Rightarrow> upload_request" where
  "upload_request_of a =
     (let sub_path = (if \<not> args_pref_sets a then ''eval-set/'' else ''pref-sets/'')
      in \<lparr>path_or_fileobj = path,
          path_in_repo = sub_path @ args_model a @ ''.json'',
          repo_id = EVAL_REPO,
          repo_type = ''dataset'',
          commit_message = ''Add reward model scores for  model '' @ args_model a\<rparr>)"

definition upload_results :: "'o libs \<Rightarrow> args \<Rightarrow> world \<Rightarrow> world \<times> (py_error + unit)" where
  "upload_results env a w =
     (if \<not> args_do_not_save a
      then (let w' = w\<lparr>upload_calls := upload_calls w @ [upload_request_of a]\<rparr>
            in case upload_file env (upload_request_of a) of
                 Inl e \<Rightarrow> (w', Inl e)
               | Inr scores_url \<Rightarrow> (w', Inr ()))
      else (w, Inr ()))"

subsection \<open>main (lines 60-215)\<close>

text \<open>Everything up to the dictionary \<open>results_grouped\<close> touches no file and no repository.\<close>

definition run_inference :: "'o libs \<Rightarrow> args \<Rightarrow> py_error + (row list \<times> string list \<times> int list)" where
  "run_inference env a =
     (case load env a of Inl e \<Rightarrow> Inl e
      | Inr ld \<Rightarrow>
     (case inference_loop env (ld_tokenizer ld) (ld_dpo ld) [] (ld_dataloader ld) of
        Inl e \<Rightarrow> Inl e
      | Inr results \<Rightarrow> Inr (ld_dataset ld, ld_subsets ld, results)))"

definition main :: "'o libs \<Rightarrow> args \<Rightarrow> world \<Rightarrow> world \<times> (py_error + unit)" where
  "main env a w =
     (case run_inference env a of Inl e \<Rightarrow> (w, Inl e)
      | Inr (dataset, subsets, results) \<Rightarrow>
     (case group_results a dataset results subsets of Inl e \<Rightarrow> (w, Inl e)
      | Inr results_grouped \<Rightarrow>
     (case json_dumps env results_grouped 4 True of Inl e \<Rightarrow> (w, Inl e)
      | Inr dumped \<Rightarrow>
     (case save_results env (fs w) dumped of
        (f, Inl e) \<Rightarrow> (w\<lparr>fs := f\<rparr>, Inl e)
      | (f, Inr u) \<Rightarrow> upload_results env a (w\<lparr>fs := f\<rparr>)))))"

subsection \<open>A small concrete run\<close>

text \<open>
  Library stand-ins used to instantiate the theorems below: an opaque object is a list of
  numbers, a tokenized row holds the lengths of its two texts, a collated batch is the
  concatenation of its rows, and the score of a text is its length.
\<close>

fun demo_chosen :: "nat list \<Rightarrow> pyfloat list" where
  "demo_chosen (c # r # rest) = Finite (of_nat c) # demo_chosen rest"
| "demo_chosen _ = []"

fun demo_rejected :: "nat list \<Rightarrow> pyfloat list" where
  "demo_rejected (c # r # rest) = Finite (of_nat r) # demo_rejected rest"
| "demo_rejected _ = []"

definition demo_libs :: "nat list libs" where
  "demo_libs =
     \<lparr>Accelerator = Inr [],
      get_conv_template = (\<lambda>name. Inr []),
      AutoTokenizer_from_pretrained = (\<lambda>p. Inr []),
      load_eval_dataset = (\<lambda>core_set conv tok.
         Inr ([\<lparr>text_chosen = ''abc'', text_rejected = ''a''\<rparr>,
               \<lparr>text_chosen = ''ab'', text_rejected = ''cd''\<rparr>,
               \<lparr>text_chosen = ''a'', text_rejected = ''bc''\<rparr>],
              [''b'', ''a'', ''b''])),
      AutoModelForCausalLM_from_pretrained = (\<lambda>p. Inr []),
      DPOInference = (\<lambda>model ref_model tok accelerator. Inr []),
      tokenize_row = (\<lambda>dpo r. Inr [length (text_chosen r), length (text_rejected r)]),
      collate_fn = (\<lambda>tok dpo samples. Inr (concat samples)),
      inference_step = (\<lambda>dpo batch. Inr (Tensor (demo_chosen batch), Tensor (demo_rejected batch))),
      json_dumps = (\<lambda>d indent sort_keys. Inr (concat (map fst d))),
      upload_file = (\<lambda>req. Inr ''url''),
      os_fault = (\<lambda>c. None)\<rparr>"

definition demo_args :: args where
  "demo_args =
     \<lparr>args_model = ''m'', args_ref_model = ''r'', args_tokenizer = None,
      args_chat_template = ''tulu'', args_do_not_save = False, args_batch_size = 2,
      args_pref_sets = False\<rparr>"

definition demo_world :: world where
  "demo_world = \<lparr>fs = (\<lambda>p. None), upload_calls = []\<rparr>"

text \<open>The same libraries with an inference step that scores the first sample of a batch only.\<close>

definition short_libs :: "nat list libs" where
  "short_libs =
     demo_libs\<lparr>inference_step := (\<lambda>dpo batch.
        Inr (Tensor (take 1 (demo_chosen batch)), Tensor (take 1 (demo_rejected batch))))\<rparr>"

text \<open>The same libraries on a data set whose only subset label is \<^verbatim>\<open>model\<close>.\<close>

definition collision_libs :: "nat list libs" where
  "collision_libs =
     demo_libs\<lparr>load_eval_dataset := (\<lambda>core_set conv tok.
        Inr ([\<lparr>text_chosen = ''abc'', text_rejected = ''a''\<rparr>], [''model'']))\<rparr>"

section \<open>Properties\<close>

subsection \<open>The comparison of a pair\<close>

lemma append_results_eq:
  "append_results acc ps = Inr rs \<Longrightarrow>
     rs = acc @ map (\<lambda>(c, r). if py_gt c r = Inr True then 1 else 0) ps"
proof (induction ps arbitrary: acc)
  case Nil
  then show ?case by simp
next
  case (Cons p ps)
  obtain c r where p: "p = (c, r)" by (cases p)
  from Cons.prems p obtain b where b: "py_gt c r = Inr b"
    and rest: "append_results (acc @ [if b then 1 else 0]) ps = Inr rs"
    by (auto split: sum.splits)
  from Cons.IH [OF rest] p b show ?case by (cases b) simp_all
qed

lemma loop_body_eq:
  "loop_body env tok dpo acc samples = Inr rs \<Longrightarrow>
     rs = acc @ map (\<lambda>(c, r). if py_gt c r = Inr True then 1 else 0)
                 (pairs_of_batch env tok dpo samples)"
  unfolding loop_body_def pairs_of_batch_def
  by (auto split: sum.splits prod.splits dest: append_results_eq)

lemma inference_loop_eq:
  "inference_loop env tok dpo acc batches = Inr rs \<Longrightarrow>
     rs = acc @ map (\<lambda>(c, r). if py_gt c r = Inr True then 1 else 0)
                 (processed_pairs env tok dpo batches)"
proof (induction batches arbitrary: acc)
  case Nil
  then show ?case by (simp add: processed_pairs_def)
next
  case (Cons samples rest)
  from Cons.prems obtain acc' where body: "loop_body env tok dpo acc samples = Inr acc'"
    and tl: "inference_loop env tok dpo acc' rest = Inr rs"
    by (auto split: sum.splits)
  from Cons.IH [OF tl] loop_body_eq [OF body] show ?case
    by (simp add: processed_pairs_def)
qed





subsection \<open>The file system and the upload\<close>

lemma dirname_path: "os_path_dirname path = ''results''"
  by (simp add: os_path_dirname_def path_def)

lemma path_neq_results: "path \<noteq> ''results''" "''results'' \<noteq> path"
  by (simp_all add: path_def)

lemma os_makedirs_Inr:
  "os_makedirs env f d = Inr f1 \<longleftrightarrow>
     os_fault env (Makedirs d) = None \<and> (\<forall>c. f d \<noteq> Some (File c)) \<and> f1 = f(d \<mapsto> Dir)"
  by (auto simp: os_makedirs_def split: option.splits node.splits)

lemma os_remove_Inr:
  "os_remove env f p = Inr f2 \<longleftrightarrow>
     os_fault env (Remove p) = None \<and> (\<exists>c. f p = Some (File c)) \<and> f2 = f(p := None)"
  by (auto simp: os_remove_def split: option.splits node.splits)

lemma open_w_Inr:
  "open_w env f p = Inr f3 \<longleftrightarrow>
     os_fault env (Open p) = None \<and>
     (os_path_dirname p = [] \<or> f (os_path_dirname p) = Some Dir) \<and> f p \<noteq> Some Dir \<and>
     f3 = f(p \<mapsto> File [])"
  by (auto simp: open_w_def split: option.splits)

lemma file_write_Inr:
  "file_write env f p dumped = Inr f4 \<longleftrightarrow>
     os_fault env (Write p) = None \<and> f4 = f(p \<mapsto> File dumped)"
  by (auto simp: file_write_def split: option.splits)

lemma save_results_unfold:
  "save_results env f dumped =
     (case os_makedirs env f ''results'' of
        Inl e \<Rightarrow> (f, Inl e)
      | Inr f1 \<Rightarrow>
     (case (if os_path_isfile f1 path then os_remove env f1 path else Inr f1) of
        Inl e \<Rightarrow> (f1, Inl e)
      | Inr f2 \<Rightarrow>
     (case open_w env f2 path of
        Inl e \<Rightarrow> (f2, Inl e)
      | Inr f3 \<Rightarrow>
     (case file_write env f3 path dumped of
        Inl e \<Rightarrow> (f3, Inl e)
      | Inr f4 \<Rightarrow> (f4, Inr ())))))"
  by (simp add: save_results_def dirname_path)

lemma save_results_steps:
  assumes "save_results env f dumped = (f', Inr ())"
  shows "\<exists>f1 f2 f3.
           os_makedirs env f ''results'' = Inr f1 \<and>
           (if os_path_isfile f1 path then os_remove env f1 path else Inr f1) = Inr f2 \<and>
           open_w env f2 path = Inr f3 \<and>
           file_write env f3 path dumped = Inr f'"
proof (cases "os_makedirs env f ''results''")
  case (Inl e)
  with assms show ?thesis by (simp add: save_results_unfold)
next
  case f1: (Inr f1)
  show ?thesis
  proof (cases "if os_path_isfile f1 path then os_remove env f1 path else Inr f1")
    case (Inl e)
    with assms f1 show ?thesis by (simp add: save_results_unfold)
  next
    case f2: (Inr f2)
    show ?thesis
    proof (cases "open_w env f2 path")
      case (Inl e)
      with assms f1 f2 show ?thesis by (simp add: save_results_unfold)
    next
      case f3: (Inr f3)
      show ?thesis
      proof (cases "file_write env f3 path dumped")
        case (Inl e)
        with assms f1 f2 f3 show ?thesis by (simp add: save_results_unfold)
      next
        case (Inr f4)
        with assms f1 f2 f3 show ?thesis by (simp add: save_results_unfold)
      qed
    qed
  qed
qed

lemma isfile_after_makedirs:
  "os_path_isfile (f(''results'' \<mapsto> Dir)) path = os_path_isfile f path"
  by (simp add: os_path_isfile_def path_neq_results)

lemma save_results_success:
  assumes "save_results env f dumped = (f', Inr ())"
  shows "f' = f(''results'' \<mapsto> Dir, path \<mapsto> File dumped) \<and>
         (\<forall>c. f ''results'' \<noteq> Some (File c)) \<and> f path \<noteq> Some Dir \<and>
         os_fault env (Makedirs ''results'') = None \<and>
         (os_path_isfile f path \<longrightarrow> os_fault env (Remove path) = None) \<and>
         os_fault env (Open path) = None \<and> os_fault env (Write path) = None"
proof -
  from save_results_steps [OF assms] obtain f1 f2 f3 where
    mk: "os_makedirs env f ''results'' = Inr f1"
    and rm: "(if os_path_isfile f1 path then os_remove env f1 path else Inr f1) = Inr f2"
    and op: "open_w env f2 path = Inr f3"
    and wr: "file_write env f3 path dumped = Inr f'"
    by blast
  from mk have f1: "f1 = f(''results'' \<mapsto> Dir)" and nofile: "\<forall>c. f ''results'' \<noteq> Some (File c)"
    and fm: "os_fault env (Makedirs ''results'') = None"
    by (simp_all add: os_makedirs_Inr)
  from op have fo: "os_fault env (Open path) = None" and nodir2: "f2 path \<noteq> Some Dir"
    and f3: "f3 = f2(path \<mapsto> File [])"
    by (simp_all add: open_w_Inr)
  from wr have fw: "os_fault env (Write path) = None" and f': "f' = f3(path \<mapsto> File dumped)"
    by (simp_all add: file_write_Inr)
  show ?thesis
  proof (cases "os_path_isfile f path")
    case True
    with rm f1 have r: "os_remove env f1 path = Inr f2"
      by (simp add: isfile_after_makedirs)
    then have fr: "os_fault env (Remove path) = None" and f2: "f2 = f1(path := None)"
      by (simp_all add: os_remove_Inr)
    from True have "f path \<noteq> Some Dir" by (auto simp: os_path_isfile_def)
    with f1 f2 f3 f' nofile fm fo fw fr show ?thesis
      by (auto simp: fun_eq_iff path_neq_results)
  next
    case False
    with rm f1 have f2: "f2 = f1" by (simp add: isfile_after_makedirs)
    with nodir2 f1 have "f path \<noteq> Some Dir" by (simp add: path_neq_results)
    with False f1 f2 f3 f' nofile fm fo fw show ?thesis
      by (auto simp: fun_eq_iff path_neq_results)
  qed
qed

lemma save_results_ok:
  assumes "\<forall>c. f ''results'' \<noteq> Some (File c)" and "f path \<noteq> Some Dir"
    and "os_fault env (Makedirs ''results'') = None"
    and "os_path_isfile f path \<longrightarrow> os_fault env (Remove path) = None"
    and "os_fault env (Open path) = None" and "os_fault env (Write path) = None"
  shows "save_results env f dumped = (f(''results'' \<mapsto> Dir, path \<mapsto> File dumped), Inr ())"
proof -
  let ?f1 = "f(''results'' \<mapsto> Dir)"
  from assms(1,3) have mk: "os_makedirs env f ''results'' = Inr ?f1"
    by (simp add: os_makedirs_Inr)
  have op: "open_w env g path = Inr (g(path \<mapsto> File []))"
    if "g ''results'' = Some Dir" "g path \<noteq> Some Dir" for g
    using that assms(5) by (simp add: open_w_Inr dirname_path)
  have wr: "file_write env g path dumped = Inr (g(path \<mapsto> File dumped))" for g
    using assms(6) by (simp add: file_write_Inr)
  show ?thesis
  proof (cases "os_path_isfile f path")
    case True
    then obtain c where c: "f path = Some (File c)"
      by (auto simp: os_path_isfile_def split: option.splits node.splits)
    with True assms(4) have rm: "os_remove env ?f1 path = Inr (?f1(path := None))"
      by (simp add: os_remove_Inr path_neq_results)
    have "open_w env (?f1(path := None)) path = Inr ((?f1(path := None))(path \<mapsto> File []))"
      by (rule op) (simp_all add: path_neq_results)
    with mk rm True show ?thesis
      by (simp add: save_results_unfold isfile_after_makedirs wr fun_eq_iff)
  next
    case False
    have "open_w env ?f1 path = Inr (?f1(path \<mapsto> File []))"
      by (rule op) (simp_all add: path_neq_results assms(2))
    with mk False show ?thesis
      by (simp add: save_results_unfold isfile_after_makedirs wr fun_eq_iff)
  qed
qed

lemma main_success:
  assumes "main env a w = (w', Inr ())"
  shows "\<exists>dataset subsets results results_grouped dumped.
           run_inference env a = Inr (dataset, subsets, results) \<and>
           group_results a dataset results subsets = Inr results_grouped \<and>
           json_dumps env results_grouped 4 True = Inr dumped \<and>
           save_results env (fs w) dumped = (fs w', Inr ()) \<and>
           upload_results env a (w\<lparr>fs := fs w'\<rparr>) = (w', Inr ())"
proof -
  from assms obtain dataset subsets results where
    r: "run_inference env a = Inr (dataset, subsets, results)"
    by (cases "run_inference env a") (auto simp: main_def)
  from assms r obtain g where g: "group_results a dataset results subsets = Inr g"
    by (cases "group_results a dataset results subsets") (auto simp: main_def)
  from assms r g obtain dumped where d: "json_dumps env g 4 True = Inr dumped"
    by (cases "json_dumps env g 4 True") (auto simp: main_def)
  obtain f res where s: "save_results env (fs w) dumped = (f, res)"
    by (cases "save_results env (fs w) dumped")
  from assms r g d s have res: "res = Inr ()"
    by (cases res) (auto simp: main_def)
  from assms r g d s res have up: "upload_results env a (w\<lparr>fs := f\<rparr>) = (w', Inr ())"
    by (simp add: main_def)
  then have "fs w' = f"
    by (auto simp: upload_results_def Let_def split: if_splits sum.splits)
  with r g d s res up show ?thesis by simp
qed

lemma main_reaches_upload:
  assumes "run_inference env a = Inr (dataset, subsets, results)"
    and "group_results a dataset results subsets = Inr results_grouped"
    and "json_dumps env results_grouped 4 True = Inr dumped"
    and "save_results env (fs w) dumped = (f, Inr ())"
  shows "main env a w = upload_results env a (w\<lparr>fs := f\<rparr>)"
  using assms by (simp add: main_def)

lemma upload_results_fs: "fs (fst (upload_results env a w)) = fs w"
  by (simp add: upload_results_def Let_def split: sum.splits)




subsection \<open>The concrete run, evaluated\<close>

lemma demo_load:
  "load demo_libs (demo_args\<lparr>args_do_not_save := b\<rparr>) =
     Inr \<lparr>ld_tokenizer = [], ld_dataset =
            [\<lparr>text_chosen = ''abc'', text_rejected = ''a''\<rparr>,
             \<lparr>text_chosen = ''ab'', text_rejected = ''cd''\<rparr>,
             \<lparr>text_chosen = ''a'', text_rejected = ''bc''\<rparr>],
          ld_subsets = [''b'', ''a'', ''b''], ld_dpo = [],
          ld_dataloader = [[[3, 1], [2, 2]], [[1, 2]]]\<rparr>"
  by (simp add: load_def demo_libs_def demo_args_def DataLoader_def)

lemma demo_run_inference:
  "run_inference demo_libs (demo_args\<lparr>args_do_not_save := b\<rparr>) =
     Inr ([\<lparr>text_chosen = ''abc'', text_rejected = ''a''\<rparr>,
           \<lparr>text_chosen = ''ab'', text_rejected = ''cd''\<rparr>,
           \<lparr>text_chosen = ''a'', text_rejected = ''bc''\<rparr>],
          [''b'', ''a'', ''b''], [1, 0, 0])"
  unfolding run_inference_def demo_load
  by (simp add: demo_libs_def loop_body_def extract_scores_def scores_of_tensor_def)

lemma demo_group_results:
  "group_results (demo_args\<lparr>args_do_not_save := b\<rparr>)
     [\<lparr>text_chosen = ''abc'', text_rejected = ''a''\<rparr>,
      \<lparr>text_chosen = ''ab'', text_rejected = ''cd''\<rparr>,
      \<lparr>text_chosen = ''a'', text_rejected = ''bc''\<rparr>] [1, 0, 0] [''b'', ''a'', ''b''] =
   Inr [(''model'', JString ''m''), (''chat_template'', JString ''tulu''),
        (''a'', JNumber 0), (''b'', JNumber (1 / 2))]"
  by (simp add: group_results_def make_out_dataset_def add_column_def np_unique_def
      demo_args_def col_subset_def col_results_def Let_def)

lemma demo_main:
  "main demo_libs (demo_args\<lparr>args_do_not_save := b\<rparr>) demo_world =
     (\<lparr>fs = (\<lambda>p. None)(''results'' \<mapsto> Dir, path \<mapsto> File ''modelchat_templateab''),
       upload_calls = (if b then [] else [upload_request_of demo_args])\<rparr>, Inr ())"
proof -
  have d: "json_dumps demo_libs [(''model'', JString ''m''), (''chat_template'', JString ''tulu''),
        (''a'', JNumber 0), (''b'', JNumber (1 / 2))] 4 True = Inr ''modelchat_templateab''"
    by (simp add: demo_libs_def)
  have s: "save_results demo_libs (fs demo_world) ''modelchat_templateab'' =
     ((\<lambda>p. None)(''results'' \<mapsto> Dir, path \<mapsto> File ''modelchat_templateab''), Inr ())"
    using save_results_ok [of "fs demo_world" demo_libs "''modelchat_templateab''"]
    by (simp add: demo_world_def demo_libs_def)
  show ?thesis
    unfolding main_reaches_upload [OF demo_run_inference demo_group_results d s]
    by (simp add: upload_results_def demo_world_def demo_libs_def upload_request_of_def
        demo_args_def)
qed


subsection \<open>Writing the local results file\<close>

lemma loop_body_os_fault:
  "loop_body (env\<lparr>os_fault := g\<rparr>) tok dpo acc samples = loop_body env tok dpo acc samples"
  by (simp add: loop_body_def cong: sum.case_cong prod.case_cong)

lemma inference_loop_os_fault:
  "inference_loop (env\<lparr>os_fault := g\<rparr>) tok dpo acc batches = inference_loop env tok dpo acc batches"
  by (induction batches arbitrary: acc) (simp_all add: loop_body_os_fault cong: sum.case_cong)

lemma load_os_fault: "load (env\<lparr>os_fault := g\<rparr>) a = load env a"
  by (simp add: load_def cong: sum.case_cong prod.case_cong)

lemma run_inference_os_fault:
  "run_inference (env\<lparr>os_fault := g\<rparr>) a = run_inference env a"
  by (simp add: run_inference_def load_os_fault inference_loop_os_fault cong: sum.case_cong)

lemma upload_results_os_fault:
  "upload_results (env\<lparr>os_fault := g\<rparr>) a w = upload_results env a w"
  by (simp add: upload_results_def)

lemma main_remove_fails:
  assumes "main env a w = (w', Inr ())" and "fs w path = Some (File old)"
  shows "main (env\<lparr>os_fault := (os_fault env)(Remove path \<mapsto> e)\<rparr>) a w
           = (w\<lparr>fs := (fs w)(''results'' \<mapsto> Dir)\<rparr>, Inl e)"
proof -
  let ?env = "env\<lparr>os_fault := (os_fault env)(Remove path \<mapsto> e)\<rparr>"
  from main_success [OF assms(1)] obtain dataset subsets results results_grouped dumped where
    r: "run_inference env a = Inr (dataset, subsets, results)"
    and g: "group_results a dataset results subsets = Inr results_grouped"
    and d: "json_dumps env results_grouped 4 True = Inr dumped"
    and s: "save_results env (fs w) dumped = (fs w', Inr ())"
    by blast
  from save_results_success [OF s]
  have nofile: "\<forall>c. fs w ''results'' \<noteq> Some (File c)"
    and fm: "os_fault env (Makedirs ''results'') = None"
    by simp_all
  from nofile fm have mk: "os_makedirs ?env (fs w) ''results'' = Inr ((fs w)(''results'' \<mapsto> Dir))"
    by (simp add: os_makedirs_Inr)
  from assms(2) have isf: "os_path_isfile ((fs w)(''results'' \<mapsto> Dir)) path"
    by (simp add: os_path_isfile_def path_neq_results)
  have rm: "os_remove ?env ((fs w)(''results'' \<mapsto> Dir)) path = Inl e"
    by (simp add: os_remove_def)
  from mk isf rm have "save_results ?env (fs w) dumped = ((fs w)(''results'' \<mapsto> Dir), Inl e)"
    by (simp add: save_results_unfold)
  with r g d show ?thesis
    by (simp add: main_def run_inference_os_fault)
qed

lemma main_fs_rerun:
  assumes "main env a w = (w', Inr ())"
    and "fs w0 ''results'' = fs w ''results'' \<or> fs w0 ''results'' = Some Dir"
    and "\<forall>p. p \<noteq> ''results'' \<and> p \<noteq> path \<longrightarrow> fs w0 p = fs w p"
    and "fs w0 path \<noteq> Some Dir"
    and "os_path_isfile (fs w0) path \<longrightarrow> os_fault env (Remove path) = None"
  shows "fs (fst (main env a w0)) = fs w'"
proof -
  from main_success [OF assms(1)] obtain dataset subsets results results_grouped dumped where
    r: "run_inference env a = Inr (dataset, subsets, results)"
    and g: "group_results a dataset results subsets = Inr results_grouped"
    and d: "json_dumps env results_grouped 4 True = Inr dumped"
    and s: "save_results env (fs w) dumped = (fs w', Inr ())"
    by blast
  note ok = save_results_success [OF s]
  from ok assms(2) have "\<forall>c. fs w0 ''results'' \<noteq> Some (File c)" by auto
  from save_results_ok [OF this assms(4) _ assms(5), of dumped] ok
  have "save_results env (fs w0) dumped
          = ((fs w0)(''results'' \<mapsto> Dir, path \<mapsto> File dumped), Inr ())"
    by simp
  moreover from ok assms(3) have "(fs w0)(''results'' \<mapsto> Dir, path \<mapsto> File dumped) = fs w'"
    by (auto simp: fun_eq_iff)
  ultimately have "save_results env (fs w0) dumped = (fs w', Inr ())" by simp
  from main_reaches_upload [OF r g d this] show ?thesis
    by (simp add: upload_results_fs)
qed

text \<open>
  Claim C10. A run that ends without an exception leaves \<^verbatim>\<open>results\<close> a directory
  (created when missing) and \<^verbatim>\<open>results/metrics.json\<close> a file holding exactly
  \<^verbatim>\<open>json.dumps(results_grouped, indent=4, sort_keys=True)\<close> of this run, every other
  path as it was. An existing file is removed before the new one is opened: when that
  \<^verbatim>\<open>os.remove\<close> raises, the run ends with its exception and the old file is still in
  place. What an earlier run left in the file does not show in the outcome, and running
  again on the outcome leaves the file system as it is.
\<close>

theorem local_file_holds_current_results:
  assumes "main env a w = (w', Inr ())"
  shows "\<exists>dataset subsets results results_grouped dumped.
           run_inference env a = Inr (dataset, subsets, results) \<and>
           group_results a dataset results subsets = Inr results_grouped \<and>
           json_dumps env results_grouped 4 True = Inr dumped \<and>
           fs w' = (fs w)(''results'' \<mapsto> Dir, path \<mapsto> File dumped) \<and>
           (\<forall>old e. fs w path = Some (File old) \<longrightarrow>
              os_remove env ((fs w)(''results'' \<mapsto> Dir)) path
                = Inr ((fs w)(''results'' \<mapsto> Dir, path := None)) \<and>
              main (env\<lparr>os_fault := (os_fault env)(Remove path \<mapsto> e)\<rparr>) a w
                = (w\<lparr>fs := (fs w)(''results'' \<mapsto> Dir)\<rparr>, Inl e)) \<and>
           (os_fault env (Remove path) = None \<longrightarrow>
              (\<forall>old. fs (fst (main env a (w\<lparr>fs := (fs w)(path \<mapsto> File old)\<rparr>))) = fs w')) \<and>
           fs (fst (main env a (w\<lparr>fs := (fs w)(path := None)\<rparr>))) = fs w' \<and>
           fs (fst (main env a w')) = fs w'"
proof -
  from main_success [OF assms] obtain dataset subsets results results_grouped dumped where
    r: "run_inference env a = Inr (dataset, subsets, results)"
    and g: "group_results a dataset results subsets = Inr results_grouped"
    and d: "json_dumps env results_grouped 4 True = Inr dumped"
    and s: "save_results env (fs w) dumped = (fs w', Inr ())"
    by blast
  note ok = save_results_success [OF s]
  from ok have f': "fs w' = (fs w)(''results'' \<mapsto> Dir, path \<mapsto> File dumped)" by simp
  have removed: "os_remove env ((fs w)(''results'' \<mapsto> Dir)) path
                = Inr ((fs w)(''results'' \<mapsto> Dir, path := None)) \<and>
              main (env\<lparr>os_fault := (os_fault env)(Remove path \<mapsto> e)\<rparr>) a w
                = (w\<lparr>fs := (fs w)(''results'' \<mapsto> Dir)\<rparr>, Inl e)"
    if old: "fs w path = Some (File old)" for old e
  proof -
    from old have "os_path_isfile (fs w) path" by (simp add: os_path_isfile_def)
    with ok have "os_fault env (Remove path) = None" by simp
    with old have "os_remove env ((fs w)(''results'' \<mapsto> Dir)) path
                = Inr ((fs w)(''results'' \<mapsto> Dir, path := None))"
      by (simp add: os_remove_Inr path_neq_results)
    with main_remove_fails [OF assms old] show ?thesis by simp
  qed
  have over: "fs (fst (main env a (w\<lparr>fs := (fs w)(path \<mapsto> File old)\<rparr>))) = fs w'"
    if "os_fault env (Remove path) = None" for old
    by (rule main_fs_rerun [OF assms]) (simp_all add: path_neq_results that)
  have gone: "fs (fst (main env a (w\<lparr>fs := (fs w)(path := None)\<rparr>))) = fs w'"
    by (rule main_fs_rerun [OF assms]) (simp_all add: path_neq_results os_path_isfile_def)
  have again: "fs (fst (main env a w')) = fs w'"
  proof (cases "os_fault env (Remove path)")
    case None
    show ?thesis
      by (rule main_fs_rerun [OF assms]) (simp_all add: f' path_neq_results None)
  next
    case (Some e)
    have same: "(fs w')(''results'' \<mapsto> Dir) = fs w'"
      by (simp add: f' fun_eq_iff path_neq_results)
    from ok have "os_makedirs env (fs w') ''results'' = Inr ((fs w')(''results'' \<mapsto> Dir))"
      by (simp add: os_makedirs_Inr f' path_neq_results)
    moreover have "os_path_isfile ((fs w')(''results'' \<mapsto> Dir)) path"
      by (simp add: same) (simp add: f' os_path_isfile_def)
    moreover from Some have "os_remove env ((fs w')(''results'' \<mapsto> Dir)) path = Inl e"
      by (simp add: os_remove_def)
    ultimately have "save_results env (fs w') dumped = ((fs w')(''results'' \<mapsto> Dir), Inl e)"
      by (simp add: save_results_unfold)
    with r g d same show ?thesis by (simp add: main_def)
  qed
  from r g d f' removed over gone again show ?thesis by blast
qed

text \<open>
  The concrete run on a file system that holds an old \<^verbatim>\<open>results/metrics.json\<close>, and
  the same run with an \<^verbatim>\<open>os.remove\<close> that raises.
\<close>

theorem local_file_holds_current_results_witness:
  "snd (main demo_libs (demo_args\<lparr>args_do_not_save := True\<rparr>)
          (demo_world\<lparr>fs := (\<lambda>p. None)(path \<mapsto> File ''old'')\<rparr>)) = Inr () \<and>
   fs (fst (main demo_libs (demo_args\<lparr>args_do_not_save := True\<rparr>)
          (demo_world\<lparr>fs := (\<lambda>p. None)(path \<mapsto> File ''old'')\<rparr>)))
     = (\<lambda>p. None)(''results'' \<mapsto> Dir, path \<mapsto> File ''modelchat_templateab'') \<and>
   main (demo_libs\<lparr>os_fault := (os_fault demo_libs)(Remove path \<mapsto> LibraryError ''PermissionError'')\<rparr>)
        (demo_args\<lparr>args_do_not_save := True\<rparr>)
        (demo_world\<lparr>fs := (\<lambda>p. None)(path \<mapsto> File ''old'')\<rparr>)
     = (demo_world\<lparr>fs := (\<lambda>p. None)(path \<mapsto> File ''old'', ''results'' \<mapsto> Dir)\<rparr>,
        Inl (LibraryError ''PermissionError''))"
proof -
  let ?a = "demo_args\<lparr>args_do_not_save := True\<rparr>"
  let ?w = "demo_world\<lparr>fs := (\<lambda>p. None)(path \<mapsto> File ''old'')\<rparr>"
  have d: "json_dumps demo_libs [(''model'', JString ''m''), (''chat_template'', JString ''tulu''),
        (''a'', JNumber 0), (''b'', JNumber (1 / 2))] 4 True = Inr ''modelchat_templateab''"
    by (simp add: demo_libs_def)
  have s: "save_results demo_libs (fs ?w) ''modelchat_templateab'' =
     ((fs ?w)(''results'' \<mapsto> Dir, path \<mapsto> File ''modelchat_templateab''), Inr ())"
    by (rule save_results_ok) (simp_all add: demo_libs_def path_neq_results)
  have up: "upload_results demo_libs ?a w0 = (w0, Inr ())" for w0
    by (simp add: upload_results_def)
  obtain w' where m: "main demo_libs ?a ?w = (w', Inr ())"
    and w': "w' = ?w\<lparr>fs := (fs ?w)(''results'' \<mapsto> Dir, path \<mapsto> File ''modelchat_templateab'')\<rparr>"
    using main_reaches_upload [OF demo_run_inference demo_group_results d s] up by simp
  have old: "fs ?w path = Some (File ''old'')" by simp
  from local_file_holds_current_results [OF m] obtain dataset subsets results results_grouped dumped
    where "run_inference demo_libs ?a = Inr (dataset, subsets, results)"
      and "group_results ?a dataset results subsets = Inr results_grouped"
      and "json_dumps demo_libs results_grouped 4 True = Inr dumped"
      and "fs w' = (fs ?w)(''results'' \<mapsto> Dir, path \<mapsto> File dumped)"
      and rem: "\<forall>old e. fs ?w path = Some (File old) \<longrightarrow>
              os_remove demo_libs ((fs ?w)(''results'' \<mapsto> Dir)) path
                = Inr ((fs ?w)(''results'' \<mapsto> Dir, path := None)) \<and>
              main (demo_libs\<lparr>os_fault := (os_fault demo_libs)(Remove path \<mapsto> e)\<rparr>) ?a ?w
                = (?w\<lparr>fs := (fs ?w)(''results'' \<mapsto> Dir)\<rparr>, Inl e)"
      and "os_fault demo_libs (Remove path) = None \<longrightarrow>
              (\<forall>old. fs (fst (main demo_libs ?a (?w\<lparr>fs := (fs ?w)(path \<mapsto> File old)\<rparr>))) = fs w')"
      and "fs (fst (main demo_libs ?a (?w\<lparr>fs := (fs ?w)(path := None)\<rparr>))) = fs w'"
      and "fs (fst (main demo_libs ?a w')) = fs w'"
    by (elim exE conjE) (rule that; assumption)
  from rem old
  have "main (demo_libs\<lparr>os_fault := (os_fault demo_libs)(Remove path \<mapsto> LibraryError ''PermissionError'')\<rparr>)
          ?a ?w = (?w\<lparr>fs := (fs ?w)(''results'' \<mapsto> Dir)\<rparr>, Inl (LibraryError ''PermissionError''))"
    by (elim allE [where x = "''old''"] allE [where x = "LibraryError ''PermissionError''"])
       (elim impE conjE, assumption+)
  moreover have "?w\<lparr>fs := (fs ?w)(''results'' \<mapsto> Dir)\<rparr>
      = demo_world\<lparr>fs := (\<lambda>p. None)(path \<mapsto> File ''old'', ''results'' \<mapsto> Dir)\<rparr>"
    by simp
  moreover have "fs w' = (\<lambda>p. None)(''results'' \<mapsto> Dir, path \<mapsto> File ''modelchat_templateab'')"
    by (simp add: w' fun_eq_iff)
  ultimately show ?thesis using m by simp
qed

subsection \<open>The tokenizer path\<close>

lemma load_tokenizer_only:
  assumes "f (tokenizer_path a) = g (tokenizer_path a)"
  shows "load (env\<lparr>AutoTokenizer_from_pretrained := f\<rparr>) a
           = load (env\<lparr>AutoTokenizer_from_pretrained := g\<rparr>) a"
  using assms by (simp add: load_def cong: sum.case_cong prod.case_cong)

lemma load_calls:
  fixes env :: "'o libs"
  assumes "load env a = Inr ld"
  shows "\<exists>accelerator conv model ref_model tokenized_dataset.
           Accelerator env = Inr accelerator \<and>
           get_conv_template env (args_chat_template a) = Inr conv \<and>
           AutoTokenizer_from_pretrained env (tokenizer_path a) = Inr (ld_tokenizer ld) \<and>
           load_eval_dataset env (\<not> args_pref_sets a) conv (ld_tokenizer ld)
             = Inr (ld_dataset ld, ld_subsets ld) \<and>
           AutoModelForCausalLM_from_pretrained env (args_model a) = Inr model \<and>
           AutoModelForCausalLM_from_pretrained env (args_ref_model a) = Inr ref_model \<and>
           DPOInference env model ref_model (ld_tokenizer ld) accelerator = Inr (ld_dpo ld) \<and>
           comprehension (tokenize_row env (ld_dpo ld)) (ld_dataset ld) = Inr tokenized_dataset \<and>
           DataLoader tokenized_dataset (args_batch_size a) = Inr (ld_dataloader ld)"
  using assms unfolding load_def
  by (auto split: sum.splits prod.splits)

lemma load_tokenizer_error:
  "Accelerator env = Inr accelerator \<Longrightarrow>
   get_conv_template env (args_chat_template a) = Inr conv \<Longrightarrow>
   AutoTokenizer_from_pretrained env (tokenizer_path a) = Inl e \<Longrightarrow> load env a = Inl e"
  by (simp add: load_def)

text \<open>
  Claim C8. Without \<^verbatim>\<open>--tokenizer\<close> the tokenizer is loaded from the path of
  \<^verbatim>\<open>--model\<close>; a path other than that one is passed only when \<^verbatim>\<open>--tokenizer\<close> was
  given, and is then its value. The loading phase calls the tokenizer loader at that
  path and at no other: an exception of the loader there ends the loading with it, and
  after a successful loading the tokenizer in use is what the loader returned there,
  the one handed to \<^verbatim>\<open>load_eval_dataset\<close> and to \<^verbatim>\<open>DPOInference\<close>.
\<close>

theorem tokenizer_defaults_to_model:
  fixes env :: "'o libs"
  shows
  "(args_tokenizer a = None \<longrightarrow> tokenizer_path a = args_model a) \<and>
   (tokenizer_path a \<noteq> args_model a \<longrightarrow> args_tokenizer a = Some (tokenizer_path a)) \<and>
   (f (tokenizer_path a) = g (tokenizer_path a) \<longrightarrow>
      load (env\<lparr>AutoTokenizer_from_pretrained := f\<rparr>) a
        = load (env\<lparr>AutoTokenizer_from_pretrained := g\<rparr>) a) \<and>
   (Accelerator env = Inr accelerator \<longrightarrow>
    get_conv_template env (args_chat_template a) = Inr conv \<longrightarrow>
    AutoTokenizer_from_pretrained env (tokenizer_path a) = Inl e \<longrightarrow> load env a = Inl e) \<and>
   (load env a = Inr ld \<longrightarrow>
      AutoTokenizer_from_pretrained env (tokenizer_path a) = Inr (ld_tokenizer ld) \<and>
      (\<exists>accelerator conv model ref_model.
         load_eval_dataset env (\<not> args_pref_sets a) conv (ld_tokenizer ld)
           = Inr (ld_dataset ld, ld_subsets ld) \<and>
         DPOInference env model ref_model (ld_tokenizer ld) accelerator = Inr (ld_dpo ld)))"
proof -
  have paths: "(args_tokenizer a = None \<longrightarrow> tokenizer_path a = args_model a) \<and>
   (tokenizer_path a \<noteq> args_model a \<longrightarrow> args_tokenizer a = Some (tokenizer_path a))"
    by (simp add: tokenizer_path_def split: option.splits)
  have only: "f (tokenizer_path a) = g (tokenizer_path a) \<longrightarrow>
      load (env\<lparr>AutoTokenizer_from_pretrained := f\<rparr>) a
        = load (env\<lparr>AutoTokenizer_from_pretrained := g\<rparr>) a"
    using load_tokenizer_only [of f a g env] by simp
  have err: "Accelerator env = Inr accelerator \<longrightarrow>
    get_conv_template env (args_chat_template a) = Inr conv \<longrightarrow>
    AutoTokenizer_from_pretrained env (tokenizer_path a) = Inl e \<longrightarrow> load env a = Inl e"
    using load_tokenizer_error [of env accelerator a conv e] by simp
  have used: "AutoTokenizer_from_pretrained env (tokenizer_path a) = Inr (ld_tokenizer ld) \<and>
      (\<exists>accelerator conv model ref_model.
         load_eval_dataset env (\<not> args_pref_sets a) conv (ld_tokenizer ld)
           = Inr (ld_dataset ld, ld_subsets ld) \<and>
         DPOInference env model ref_model (ld_tokenizer ld) accelerator = Inr (ld_dpo ld))"
    if "load env a = Inr ld"
    using load_calls [OF that] by blast
  from paths only err used show ?thesis by (intro conjI impI) simp_all
qed

text \<open>
  The concrete arguments without and with \<^verbatim>\<open>--tokenizer\<close>, a loader that raises, and
  the concrete loading.
\<close>

theorem tokenizer_defaults_to_model_witness:
  "args_tokenizer demo_args = None \<and> tokenizer_path demo_args = ''m'' \<and>
   tokenizer_path (demo_args\<lparr>args_tokenizer := Some ''t''\<rparr>)
     \<noteq> args_model (demo_args\<lparr>args_tokenizer := Some ''t''\<rparr>) \<and>
   args_tokenizer (demo_args\<lparr>args_tokenizer := Some ''t''\<rparr>) = Some ''t'' \<and>
   load (demo_libs\<lparr>AutoTokenizer_from_pretrained :=
           (\<lambda>p. if p = ''m'' then Inr [] else Inl KeyError)\<rparr>) demo_args
     = load (demo_libs\<lparr>AutoTokenizer_from_pretrained := (\<lambda>p. Inr [])\<rparr>) demo_args \<and>
   load (demo_libs\<lparr>AutoTokenizer_from_pretrained := (\<lambda>p. Inl (LibraryError ''OSError''))\<rparr>)
        demo_args = Inl (LibraryError ''OSError'') \<and>
   AutoTokenizer_from_pretrained demo_libs
        (tokenizer_path (demo_args\<lparr>args_do_not_save := False\<rparr>)) = Inr []"
proof -
  let ?bad = "demo_libs\<lparr>AutoTokenizer_from_pretrained := (\<lambda>p. Inl (LibraryError ''OSError''))\<rparr>"
  let ?ld = "\<lparr>ld_tokenizer = [], ld_dataset =
            [\<lparr>text_chosen = ''abc'', text_rejected = ''a''\<rparr>,
             \<lparr>text_chosen = ''ab'', text_rejected = ''cd''\<rparr>,
             \<lparr>text_chosen = ''a'', text_rejected = ''bc''\<rparr>],
          ld_subsets = [''b'', ''a'', ''b''], ld_dpo = [],
          ld_dataloader = [[[3, 1], [2, 2]], [[1, 2 :: nat]]]\<rparr>"
  have none: "args_tokenizer demo_args = None" and m: "args_model demo_args = ''m''"
    by (simp_all add: demo_args_def)
  have t: "tokenizer_path (demo_args\<lparr>args_tokenizer := Some ''t''\<rparr>) = ''t''"
    by (simp add: tokenizer_path_def)
  have calls: "Accelerator ?bad = Inr []"
    "get_conv_template ?bad (args_chat_template demo_args) = Inr []"
    "AutoTokenizer_from_pretrained ?bad (tokenizer_path demo_args) = Inl (LibraryError ''OSError'')"
    by (simp_all add: demo_libs_def)
  from tokenizer_defaults_to_model
      [of demo_args "\<lambda>p. if p = ''m'' then Inr [] else Inl KeyError" "\<lambda>p. Inr []" demo_libs]
    none m
  have a: "tokenizer_path demo_args = ''m''"
    and b: "load (demo_libs\<lparr>AutoTokenizer_from_pretrained :=
           (\<lambda>p. if p = ''m'' then Inr [] else Inl KeyError)\<rparr>) demo_args
     = load (demo_libs\<lparr>AutoTokenizer_from_pretrained := (\<lambda>p. Inr [])\<rparr>) demo_args"
    by simp_all
  from tokenizer_defaults_to_model
      [of "demo_args\<lparr>args_tokenizer := Some ''t''\<rparr>" "\<lambda>p. Inr []" "\<lambda>p. Inr []" demo_libs]
    t m
  have c: "args_tokenizer (demo_args\<lparr>args_tokenizer := Some ''t''\<rparr>) = Some ''t''"
    by simp
  from tokenizer_defaults_to_model
      [where a = demo_args and env = ?bad and accelerator = "[]" and conv = "[]"
         and e = "LibraryError ''OSError''"]
    calls
  have d: "load ?bad demo_args = Inl (LibraryError ''OSError'')"
    by simp
  from tokenizer_defaults_to_model
      [where a = "demo_args\<lparr>args_do_not_save := False\<rparr>" and env = demo_libs and ld = ?ld]
    demo_load [of False]
  have e: "AutoTokenizer_from_pretrained demo_libs
        (tokenizer_path (demo_args\<lparr>args_do_not_save := False\<rparr>)) = Inr []"
    by simp
  from none a t m c b d e show ?thesis by simp
qed

subsection \<open>Grouping by subset\<close>

lemma make_out_dataset_success:
  assumes "make_out_dataset dataset results subsets = Inr out_dataset"
  shows "length results = length dataset" and "length subsets = length dataset"
    and "map (\<lambda>example. (col_results example, col_subset example)) out_dataset
           = zip results subsets"
proof -
  from assms show l1: "length results = length dataset"
    by (auto simp: make_out_dataset_def add_column_def split: if_splits sum.splits)
  from assms show l2: "length subsets = length dataset"
    by (auto simp: make_out_dataset_def add_column_def split: if_splits sum.splits)
  from assms l1 l2 have out:
    "out_dataset = map (\<lambda>((r, x), s). (r, x, s)) (zip (zip dataset results) subsets)"
    by (auto simp: make_out_dataset_def add_column_def split: if_splits sum.splits)
  have "map (\<lambda>example. (col_results example, col_subset example))
          (map (\<lambda>((r, x), s). (r, x, s)) (zip (zip ds rs) ss)) = zip rs ss"
    if "length rs = length ds" "length ss = length ds" for ds :: "row list" and rs ss
    using that
  proof (induction ds arbitrary: rs ss)
    case Nil
    then show ?case by simp
  next
    case (Cons d ds)
    then obtain r rs' s ss' where "rs = r # rs'" "ss = s # ss'"
      by (cases rs; cases ss) auto
    with Cons show ?case by (simp add: col_results_def col_subset_def)
  qed
  from this [OF l1 l2] out
  show "map (\<lambda>example. (col_results example, col_subset example)) out_dataset
           = zip results subsets" by simp
qed

lemma make_out_dataset_subsets:
  assumes "make_out_dataset dataset results subsets = Inr out_dataset"
  shows "map col_subset out_dataset = subsets" and "map col_results out_dataset = results"
proof -
  note m = make_out_dataset_success [OF assms]
  have "map col_subset out_dataset
          = map snd (map (\<lambda>example. (col_results example, col_subset example)) out_dataset)"
    by simp
  also have "\<dots> = subsets" unfolding m(3) using m(1,2) by simp
  finally show "map col_subset out_dataset = subsets" .
  have "map col_results out_dataset
          = map fst (map (\<lambda>example. (col_results example, col_subset example)) out_dataset)"
    by simp
  also have "\<dots> = results" unfolding m(3) using m(1,2) by simp
  finally show "map col_results out_dataset = results" .
qed

lemma set_np_unique: "set (np_unique subsets) = set subsets"
  by (simp add: np_unique_def)

lemma filter_subset_nonempty:
  assumes "s \<in> set (map col_subset out_dataset)"
  shows "1 \<le> length (filter (\<lambda>example. col_subset example = s) out_dataset)"
proof -
  from assms obtain ex where "ex \<in> set out_dataset" "col_subset ex = s" by auto
  then have "ex \<in> set (filter (\<lambda>example. col_subset example = s) out_dataset)" by simp
  then have "filter (\<lambda>example. col_subset example = s) out_dataset \<noteq> []"
    by (metis empty_iff empty_set)
  then show ?thesis by (simp add: Suc_le_eq)
qed

lemma group_loop_total:
  assumes "\<forall>s \<in> set ss. 1 \<le> length (filter (\<lambda>example. col_subset example = s) out_dataset)"
  shows "\<exists>g'. group_loop out_dataset ss g = Inr g'"
  using assms by (induction ss arbitrary: g) (auto simp: Let_def)

text \<open>
  Claim C9. Once both columns have been added, every label the loop iterates over
  (\<^verbatim>\<open>np.unique(subsets)\<close>, the labels occurring in the data) selects at least one row,
  so \<open>num_total\<close> is at least 1 and the loop returns a dictionary; grouping never
  raises ZeroDivisionError.
\<close>

theorem num_total_positive:
  assumes "make_out_dataset dataset results subsets = Inr out_dataset"
  shows "set (np_unique subsets) = set subsets \<and>
         (\<forall>s \<in> set (np_unique subsets).
            1 \<le> length (filter (\<lambda>example. col_subset example = s) out_dataset)) \<and>
         (\<exists>g'. group_loop out_dataset (np_unique subsets) g = Inr g') \<and>
         group_results a dataset results subsets \<noteq> Inl ZeroDivisionError"
proof -
  have pos: "\<forall>s \<in> set (np_unique subsets).
            1 \<le> length (filter (\<lambda>example. col_subset example = s) out_dataset)"
    using filter_subset_nonempty [of _ out_dataset] make_out_dataset_subsets(1) [OF assms]
    by (simp add: set_np_unique)
  from group_loop_total [OF pos]
  have total: "\<exists>g'. group_loop out_dataset (np_unique subsets) g = Inr g'" for g
    by blast
  from total assms have "group_results a dataset results subsets \<noteq> Inl ZeroDivisionError"
    unfolding group_results_def
    by (metis Inl_Inr_False sum.simps(6))
  with pos total show ?thesis by (simp add: set_np_unique)
qed

theorem num_total_positive_witness:
  "make_out_dataset
     [\<lparr>text_chosen = ''abc'', text_rejected = ''a''\<rparr>,
      \<lparr>text_chosen = ''ab'', text_rejected = ''cd''\<rparr>,
      \<lparr>text_chosen = ''a'', text_rejected = ''bc''\<rparr>] [1, 0, 0] [''b'', ''a'', ''b'']
   = Inr [(\<lparr>text_chosen = ''abc'', text_rejected = ''a''\<rparr>, 1, ''b''),
          (\<lparr>text_chosen = ''ab'', text_rejected = ''cd''\<rparr>, 0, ''a''),
          (\<lparr>text_chosen = ''a'', text_rejected = ''bc''\<rparr>, 0, ''b'')] \<and>
   ''b'' \<in> set (np_unique [''b'', ''a'', ''b'']) \<and>
   1 \<le> length (filter (\<lambda>example. col_subset example = ''b'')
          [(\<lparr>text_chosen = ''abc'', text_rejected = ''a''\<rparr>, 1, ''b''),
           (\<lparr>text_chosen = ''ab'', text_rejected = ''cd''\<rparr>, 0, ''a''),
           (\<lparr>text_chosen = ''a'', text_rejected = ''bc''\<rparr>, 0, ''b'')])"
proof -
  have m: "make_out_dataset
     [\<lparr>text_chosen = ''abc'', text_rejected = ''a''\<rparr>,
      \<lparr>text_chosen = ''ab'', text_rejected = ''cd''\<rparr>,
      \<lparr>text_chosen = ''a'', text_rejected = ''bc''\<rparr>] [1, 0, 0] [''b'', ''a'', ''b'']
   = Inr [(\<lparr>text_chosen = ''abc'', text_rejected = ''a''\<rparr>, 1, ''b''),
          (\<lparr>text_chosen = ''ab'', text_rejected = ''cd''\<rparr>, 0, ''a''),
          (\<lparr>text_chosen = ''a'', text_rejected = ''bc''\<rparr>, 0, ''b'')]"
    by (simp add: make_out_dataset_def add_column_def)
  have b: "''b'' \<in> set (np_unique [''b'', ''a'', ''b''])"
    by (simp add: set_np_unique)
  from num_total_positive [OF m, of "[]" demo_args] b m show ?thesis
    by blast
qed

subsection \<open>The dictionary of grouped results\<close>

lemma group_loop_map_of:
  assumes "group_loop out_dataset ss g = Inr g'"
  shows "map_of g' k =
     (if k \<in> set ss
      then Some (JNumber (of_int (sum_list (map col_results
                    (filter (\<lambda>example. col_subset example = k) out_dataset)))
                  / of_nat (length (filter (\<lambda>example. col_subset example = k) out_dataset))))
      else map_of g k)"
  using assms
proof (induction ss arbitrary: g)
  case Nil
  then show ?case by simp
next
  case (Cons s rest)
  let ?v = "JNumber (of_int (sum_list (map col_results
                    (filter (\<lambda>example. col_subset example = s) out_dataset)))
                  / of_nat (length (filter (\<lambda>example. col_subset example = s) out_dataset)))"
  from Cons.prems have rest: "group_loop out_dataset rest (AList.update s ?v g) = Inr g'"
    by (simp add: Let_def split: if_splits)
  from Cons.IH [OF rest] show ?case
    by (simp add: update_conv')
qed

lemma group_loop_keys:
  assumes "group_loop out_dataset ss g = Inr g'"
  shows "fst ` set g' = fst ` set g \<union> set ss"
    and "distinct (map fst g) \<Longrightarrow> distinct (map fst g')"
  using assms
proof (induction ss arbitrary: g)
  case Nil
  { case 1 then show ?case by simp }
  { case 2 then show ?case by simp }
next
  case (Cons s rest)
  let ?v = "JNumber (of_int (sum_list (map col_results
                    (filter (\<lambda>example. col_subset example = s) out_dataset)))
                  / of_nat (length (filter (\<lambda>example. col_subset example = s) out_dataset)))"
  { case 1
    then have rest: "group_loop out_dataset rest (AList.update s ?v g) = Inr g'"
      by (simp add: Let_def split: if_splits)
    from Cons.IH(1) [OF rest] show ?case by (auto simp: dom_update) }
  { case 2
    then have rest: "group_loop out_dataset rest (AList.update s ?v g) = Inr g'"
      by (simp add: Let_def split: if_splits)
    from 2 have "distinct (map fst (AList.update s ?v g))" by (simp add: distinct_update)
    from Cons.IH(2) [OF this rest] show ?case . }
qed

lemma sum_list_zero_one:
  "set xs \<subseteq> {0, 1} \<Longrightarrow> sum_list xs = int (length (filter (\<lambda>x. x = 1) xs))"
  for xs :: "int list"
  by (induction xs) auto

lemma inference_loop_zero_one:
  assumes "inference_loop env tok dpo [] batches = Inr results"
  shows "set results \<subseteq> {0, 1}"
  using inference_loop_eq [OF assms] by (auto split: if_splits)

lemma subset_column:
  assumes "make_out_dataset dataset results subsets = Inr out_dataset"
  shows "map col_results (filter (\<lambda>example. col_subset example = s) out_dataset)
           = map fst (filter (\<lambda>(x, t). t = s) (zip results subsets))"
proof -
  let ?h = "\<lambda>example. (col_results example, col_subset example)"
  have "map fst (filter (\<lambda>(x, t). t = s) (map ?h out_dataset))
          = map fst (map ?h (filter ((\<lambda>(x, t). t = s) \<circ> ?h) out_dataset))"
    by (simp only: filter_map)
  also have "\<dots> = map col_results (filter (\<lambda>example. col_subset example = s) out_dataset)"
    by (simp add: comp_def)
  finally show ?thesis
    unfolding make_out_dataset_success(3) [OF assms] by simp
qed

lemma subset_accuracy:
  assumes "make_out_dataset dataset results subsets = Inr out_dataset"
    and "set results \<subseteq> {0, 1}"
  shows "sum_list (map col_results (filter (\<lambda>example. col_subset example = s) out_dataset))
           = int (length (filter (\<lambda>(x, t). t = s \<and> x = 1) (zip results subsets)))"
    and "length (filter (\<lambda>example. col_subset example = s) out_dataset)
           = length (filter (\<lambda>(x, t). t = s) (zip results subsets))"
proof -
  let ?sel = "filter (\<lambda>(x, t). t = s) (zip results subsets)"
  have "set (map fst ?sel) \<subseteq> set results"
    by (auto dest: set_zip_leftD)
  with assms(2) have "set (map fst ?sel) \<subseteq> {0, 1}" by blast
  from sum_list_zero_one [OF this]
  have "sum_list (map fst ?sel) = int (length (filter (\<lambda>x. x = 1) (map fst ?sel)))" .
  also have "filter (\<lambda>x. x = 1) (map fst ?sel)
               = map fst (filter (\<lambda>(x, t). t = s \<and> x = 1) (zip results subsets))"
    by (simp add: filter_map comp_def case_prod_unfold conj_commute)
  finally show "sum_list (map col_results (filter (\<lambda>example. col_subset example = s) out_dataset))
           = int (length (filter (\<lambda>(x, t). t = s \<and> x = 1) (zip results subsets)))"
    by (simp add: subset_column [OF assms(1)])
  have "length (filter (\<lambda>example. col_subset example = s) out_dataset)
          = length (map col_results (filter (\<lambda>example. col_subset example = s) out_dataset))"
    by simp
  also have "\<dots> = length ?sel"
    unfolding subset_column [OF assms(1)] by simp
  finally show "length (filter (\<lambda>example. col_subset example = s) out_dataset) = length ?sel" .
qed

lemma run_inference_success:
  assumes "run_inference env a = Inr (dataset, subsets, results)"
  shows "\<exists>ld. load env a = Inr ld \<and> dataset = ld_dataset ld \<and> subsets = ld_subsets ld \<and>
           inference_loop env (ld_tokenizer ld) (ld_dpo ld) [] (ld_dataloader ld) = Inr results"
proof (cases "load env a")
  case (Inl e)
  with assms show ?thesis by (simp add: run_inference_def)
next
  case (Inr ld)
  show ?thesis
  proof (cases "inference_loop env (ld_tokenizer ld) (ld_dpo ld) [] (ld_dataloader ld)")
    case (Inl e)
    with Inr assms show ?thesis by (simp add: run_inference_def)
  next
    case r: (Inr rs)
    with Inr assms show ?thesis by (simp add: run_inference_def)
  qed
qed

lemma run_inference_zero_one:
  fixes env :: "'o libs"
  assumes "run_inference env a = Inr (dataset, subsets, results)"
  shows "set results \<subseteq> {0, 1}"
proof -
  from run_inference_success [OF assms] obtain ld :: "'o loaded" where
    "inference_loop env (ld_tokenizer ld) (ld_dpo ld) [] (ld_dataloader ld) = Inr results"
    by auto
  then show ?thesis by (rule inference_loop_zero_one)
qed

lemma initial_grouped:
  "map_of (AList.update ''chat_template'' (JString c) (AList.update ''model'' (JString m) [])) k
     = (if k = ''chat_template'' then Some (JString c)
        else if k = ''model'' then Some (JString m) else None)"
  "fst ` set (AList.update ''chat_template'' (JString c) (AList.update ''model'' (JString m) []))
     = {''model'', ''chat_template''}"
  "distinct (map fst (AList.update ''chat_template'' (JString c)
     (AList.update ''model'' (JString m) [])))"
  by auto

text \<open>
  Claim C4, amended. After a run that ends without an exception the local file holds
  the serialisation of a dictionary whose keys are \<^verbatim>\<open>model\<close>, \<^verbatim>\<open>chat_template\<close>
  and the subset labels of the data, each once and nothing else; it maps every subset
  label to the number of its pairs with result 1 divided by the number of its pairs,
  and it maps \<^verbatim>\<open>model\<close> to the model name and \<^verbatim>\<open>chat_template\<close> to the chat template
  provided that key is not itself a subset label.
\<close>

theorem results_file_content:
  assumes "main env a w = (w', Inr ())"
    and "run_inference env a = Inr (dataset, subsets, results)"
  shows "\<exists>results_grouped dumped.
     group_results a dataset results subsets = Inr results_grouped \<and>
     json_dumps env results_grouped 4 True = Inr dumped \<and>
     fs w' path = Some (File dumped) \<and>
     (''model'' \<notin> set subsets \<longrightarrow>
        map_of results_grouped ''model'' = Some (JString (args_model a))) \<and>
     (''chat_template'' \<notin> set subsets \<longrightarrow>
        map_of results_grouped ''chat_template'' = Some (JString (args_chat_template a))) \<and>
     (\<forall>s \<in> set subsets. map_of results_grouped s =
        Some (JNumber (of_nat (length (filter (\<lambda>(x, t). t = s \<and> x = 1) (zip results subsets)))
                       / of_nat (length (filter (\<lambda>(x, t). t = s) (zip results subsets)))))) \<and>
     fst ` set results_grouped = {''model'', ''chat_template''} \<union> set subsets \<and>
     distinct (map fst results_grouped)"
proof -
  from main_success [OF assms(1)] assms(2) obtain results_grouped dumped where
    g: "group_results a dataset results subsets = Inr results_grouped"
    and d: "json_dumps env results_grouped 4 True = Inr dumped"
    and s: "save_results env (fs w) dumped = (fs w', Inr ())"
    by auto
  from save_results_success [OF s] have written: "fs w' path = Some (File dumped)"
    by simp
  let ?g0 = "AList.update ''chat_template'' (JString (args_chat_template a))
              (AList.update ''model'' (JString (args_model a)) [])"
  from g obtain out_dataset where
    m: "make_out_dataset dataset results subsets = Inr out_dataset"
    and l: "group_loop out_dataset (np_unique subsets) ?g0 = Inr results_grouped"
    by (cases "make_out_dataset dataset results subsets") (auto simp: group_results_def)
  note zo = run_inference_zero_one [OF assms(2)]
  note mo = group_loop_map_of [OF l, unfolded set_np_unique]
  have model: "''model'' \<notin> set subsets \<longrightarrow>
        map_of results_grouped ''model'' = Some (JString (args_model a))"
    by (simp add: mo initial_grouped(1))
  have tmpl: "''chat_template'' \<notin> set subsets \<longrightarrow>
        map_of results_grouped ''chat_template'' = Some (JString (args_chat_template a))"
    by (simp add: mo initial_grouped(1))
  have acc: "\<forall>s \<in> set subsets. map_of results_grouped s =
        Some (JNumber (of_nat (length (filter (\<lambda>(x, t). t = s \<and> x = 1) (zip results subsets)))
                       / of_nat (length (filter (\<lambda>(x, t). t = s) (zip results subsets)))))"
    by (simp add: mo subset_accuracy [OF m zo])
  have keys: "fst ` set results_grouped = {''model'', ''chat_template''} \<union> set subsets"
    using group_loop_keys(1) [OF l] by (simp only: initial_grouped(2) set_np_unique)
  have dist: "distinct (map fst results_grouped)"
    using group_loop_keys(2) [OF l] initial_grouped(3) by blast
  from g d written model tmpl acc keys dist show ?thesis by blast
qed

text \<open>The concrete run: subset \<^verbatim>\<open>b\<close> has one of its two pairs right.\<close>

theorem results_file_content_witness:
  "snd (main demo_libs (demo_args\<lparr>args_do_not_save := True\<rparr>) demo_world) = Inr () \<and>
   ''model'' \<notin> set [''b'', ''a'', ''b''] \<and> ''b'' \<in> set [''b'', ''a'', ''b''] \<and>
   (\<exists>results_grouped.
      group_results (demo_args\<lparr>args_do_not_save := True\<rparr>)
        [\<lparr>text_chosen = ''abc'', text_rejected = ''a''\<rparr>,
         \<lparr>text_chosen = ''ab'', text_rejected = ''cd''\<rparr>,
         \<lparr>text_chosen = ''a'', text_rejected = ''bc''\<rparr>] [1, 0, 0] [''b'', ''a'', ''b'']
        = Inr results_grouped \<and>
      map_of results_grouped ''model'' = Some (JString ''m'') \<and>
      map_of results_grouped ''b'' = Some (JNumber (1 / 2)))"
proof -
  let ?a = "demo_args\<lparr>args_do_not_save := True\<rparr>"
  let ?rows = "[\<lparr>text_chosen = ''abc'', text_rejected = ''a''\<rparr>,
         \<lparr>text_chosen = ''ab'', text_rejected = ''cd''\<rparr>,
         \<lparr>text_chosen = ''a'', text_rejected = ''bc''\<rparr>]"
  obtain w' where m: "main demo_libs ?a demo_world = (w', Inr ())"
    using demo_main [of True] by simp
  have model: "args_model ?a = ''m''" by (simp add: demo_args_def)
  have notin: "''model'' \<notin> set [''b'', ''a'', ''b'']" and isin: "''b'' \<in> set [''b'', ''a'', ''b'']"
    by simp_all
  have half: "(of_nat (length (filter (\<lambda>(x, t). t = ''b'' \<and> x = 1)
                                   (zip [1, 0, 0 :: int] [''b'', ''a'', ''b''])))
                       / of_nat (length (filter (\<lambda>(x, t). t = ''b'')
                                   (zip [1, 0, 0 :: int] [''b'', ''a'', ''b''])))) = (1 / 2 :: rat)"
    by simp
  from results_file_content [OF m demo_run_inference] obtain results_grouped dumped where
    g: "group_results ?a ?rows [1, 0, 0] [''b'', ''a'', ''b''] = Inr results_grouped"
    and "json_dumps demo_libs results_grouped 4 True = Inr dumped"
    and "fs w' path = Some (File dumped)"
    and mo: "''model'' \<notin> set [''b'', ''a'', ''b''] \<longrightarrow>
           map_of results_grouped ''model'' = Some (JString (args_model ?a))"
    and "''chat_template'' \<notin> set [''b'', ''a'', ''b''] \<longrightarrow>
           map_of results_grouped ''chat_template'' = Some (JString (args_chat_template ?a))"
    and acc: "\<forall>s \<in> set [''b'', ''a'', ''b'']. map_of results_grouped s =
        Some (JNumber (of_nat (length (filter (\<lambda>(x, t). t = s \<and> x = 1)
                                   (zip [1, 0, 0 :: int] [''b'', ''a'', ''b''])))
                       / of_nat (length (filter (\<lambda>(x, t). t = s)
                                   (zip [1, 0, 0 :: int] [''b'', ''a'', ''b''])))))"
    and "fst ` set results_grouped = {''model'', ''chat_template''} \<union> set [''b'', ''a'', ''b'']"
    and "distinct (map fst results_grouped)"
    by (elim exE conjE) (rule that; assumption)
  from mo notin model have a1: "map_of results_grouped ''model'' = Some (JString ''m'')"
    by simp
  from acc isin have "map_of results_grouped ''b'' =
        Some (JNumber (of_nat (length (filter (\<lambda>(x, t). t = ''b'' \<and> x = 1)
                                   (zip [1, 0, 0 :: int] [''b'', ''a'', ''b''])))
                       / of_nat (length (filter (\<lambda>(x, t). t = ''b'')
                                   (zip [1, 0, 0 :: int] [''b'', ''a'', ''b''])))))"
    by (rule bspec)
  then have a2: "map_of results_grouped ''b'' = Some (JNumber (1 / 2))"
    by (simp only: half)
  from m have ok: "snd (main demo_libs ?a demo_world) = Inr ()" by simp
  from g a1 a2 have "\<exists>results_grouped.
      group_results ?a ?rows [1, 0, 0] [''b'', ''a'', ''b''] = Inr results_grouped \<and>
      map_of results_grouped ''model'' = Some (JString ''m'') \<and>
      map_of results_grouped ''b'' = Some (JNumber (1 / 2))"
    by (intro exI conjI)
  with ok notin isin show ?thesis by (intro conjI)
qed

text \<open>
  With the single subset label \<^verbatim>\<open>model\<close> the run completes, and the dictionary it
  serialises holds the accuracy 1 under the key \<^verbatim>\<open>model\<close>, not the model name.
\<close>

theorem results_file_content_counterexample:
  "run_inference collision_libs demo_args
     = Inr ([\<lparr>text_chosen = ''abc'', text_rejected = ''a''\<rparr>], [''model''], [1]) \<and>
   group_results demo_args [\<lparr>text_chosen = ''abc'', text_rejected = ''a''\<rparr>] [1] [''model'']
     = Inr [(''model'', JNumber 1), (''chat_template'', JString ''tulu'')] \<and>
   map_of [(''model'', JNumber 1), (''chat_template'', JString ''tulu'')] ''model''
     \<noteq> Some (JString (args_model demo_args)) \<and>
   snd (main collision_libs demo_args demo_world) = Inr ()"
proof -
  have ld: "load collision_libs demo_args =
     Inr \<lparr>ld_tokenizer = [], ld_dataset = [\<lparr>text_chosen = ''abc'', text_rejected = ''a''\<rparr>],
          ld_subsets = [''model''], ld_dpo = [], ld_dataloader = [[[3, 1]]]\<rparr>"
    by (simp add: load_def collision_libs_def demo_libs_def demo_args_def DataLoader_def)
  have r: "run_inference collision_libs demo_args
     = Inr ([\<lparr>text_chosen = ''abc'', text_rejected = ''a''\<rparr>], [''model''], [1])"
    unfolding run_inference_def ld
    by (simp add: collision_libs_def demo_libs_def loop_body_def extract_scores_def
        scores_of_tensor_def)
  have g: "group_results demo_args [\<lparr>text_chosen = ''abc'', text_rejected = ''a''\<rparr>] [1] [''model'']
     = Inr [(''model'', JNumber 1), (''chat_template'', JString ''tulu'')]"
    by (simp add: group_results_def make_out_dataset_def add_column_def np_unique_def
        demo_args_def col_subset_def col_results_def Let_def)
  have d: "json_dumps collision_libs [(''model'', JNumber 1), (''chat_template'', JString ''tulu'')]
             4 True = Inr ''modelchat_template''"
    by (simp add: collision_libs_def demo_libs_def)
  have s: "save_results collision_libs (fs demo_world) ''modelchat_template'' =
     ((\<lambda>p. None)(''results'' \<mapsto> Dir, path \<mapsto> File ''modelchat_template''), Inr ())"
    using save_results_ok [of "fs demo_world" collision_libs "''modelchat_template''"]
    by (simp add: demo_world_def collision_libs_def demo_libs_def)
  have "snd (main collision_libs demo_args demo_world) = Inr ()"
    unfolding main_reaches_upload [OF r g d s]
    by (simp add: upload_results_def collision_libs_def demo_libs_def demo_args_def)
  with r g show ?thesis by simp
qed

subsection \<open>Batches\<close>

declare chunks.simps [simp del]

lemma chunks_Nil: "chunks n [] = []"
  by (simp add: chunks.simps)

lemma chunks_step: "0 < n \<Longrightarrow> xs \<noteq> [] \<Longrightarrow> chunks n xs = take n xs # chunks n (drop n xs)"
  by (subst chunks.simps) simp

lemma concat_chunks: "0 < n \<Longrightarrow> concat (chunks n xs) = xs"
proof (induction n xs rule: chunks.induct)
  case (1 n xs)
  show ?case
  proof (cases "xs = []")
    case True
    then show ?thesis by (simp add: chunks_Nil)
  next
    case False
    with 1 have "concat (chunks n (drop n xs)) = drop n xs" by simp
    with False 1(2) show ?thesis
      by (simp add: chunks_step)
  qed
qed

lemma chunks_sizes: "0 < n \<Longrightarrow> b \<in> set (chunks n xs) \<Longrightarrow> b \<noteq> [] \<and> length b \<le> n"
proof (induction n xs rule: chunks.induct)
  case (1 n xs)
  show ?case
  proof (cases "xs = []")
    case True
    with 1(3) show ?thesis by (simp add: chunks_Nil)
  next
    case False
    from 1(3) False 1(2) have "b = take n xs \<or> b \<in> set (chunks n (drop n xs))"
      by (simp add: chunks_step)
    then show ?thesis
    proof
      assume "b = take n xs"
      with False 1(2) show ?thesis by simp
    next
      assume "b \<in> set (chunks n (drop n xs))"
      with 1(1) False 1(2) show ?thesis by simp
    qed
  qed
qed

lemma chunks_nth:
  "0 < n \<Longrightarrow> i < length xs \<Longrightarrow>
     i div n < length (chunks n xs) \<and> i mod n < length (chunks n xs ! (i div n)) \<and>
     chunks n xs ! (i div n) ! (i mod n) = xs ! i"
proof (induction n xs arbitrary: i rule: chunks.induct)
  case (1 n xs)
  from 1(3) have ne: "xs \<noteq> []" by auto
  with 1(2) have unfold: "chunks n xs = take n xs # chunks n (drop n xs)"
    by (simp add: chunks_step)
  show ?case
  proof (cases "i < n")
    case True
    with 1(3) ne show ?thesis by (simp add: unfold)
  next
    case False
    then have ge: "n \<le> i" by simp
    with 1(3) have "i - n < length (drop n xs)" by simp
    from 1(1) [OF _ 1(2) this] ne 1(2)
    have ih: "(i - n) div n < length (chunks n (drop n xs)) \<and>
       (i - n) mod n < length (chunks n (drop n xs) ! ((i - n) div n)) \<and>
       chunks n (drop n xs) ! ((i - n) div n) ! ((i - n) mod n) = drop n xs ! (i - n)"
      by simp
    from ge 1(2) have d: "i div n = Suc ((i - n) div n)" and m: "i mod n = (i - n) mod n"
      by (simp_all add: le_div_geq le_mod_geq)
    from ge 1(3) have "drop n xs ! (i - n) = xs ! i" by simp
    with ih show ?thesis by (simp add: unfold d m)
  qed
qed

lemma chunks_same_shape:
  "0 < n \<Longrightarrow> map length yss = map length (chunks n xs) \<Longrightarrow> chunks n (concat yss) = yss"
proof (induction n xs arbitrary: yss rule: chunks.induct)
  case (1 n xs)
  show ?case
  proof (cases "xs = []")
    case True
    with 1(3) have "yss = []" by (simp add: chunks_Nil)
    then show ?thesis by (simp add: chunks_Nil)
  next
    case False
    with 1(2) have unfold: "chunks n xs = take n xs # chunks n (drop n xs)"
      by (simp add: chunks_step)
    with 1(3) obtain ys yss' where yss: "yss = ys # yss'"
      and len: "length ys = length (take n xs)"
      and rest: "map length yss' = map length (chunks n (drop n xs))"
      by (cases yss) auto
    from 1(1) [OF _ 1(2) rest] False 1(2) have ih: "chunks n (concat yss') = yss'" by simp
    from len False 1(2) have ys_ne: "ys \<noteq> []"
      by (cases xs) (auto simp: min_def split: if_splits)
    show ?thesis
    proof (cases "n \<le> length xs")
      case True
      with len have "length ys = n" by simp
      with ys_ne ih 1(2) show ?thesis
        by (simp add: yss chunks_step)
    next
      case short: False
      then have "drop n xs = []" by simp
      with rest have "yss' = []" by (simp add: chunks_Nil)
      moreover from short len have "length ys < n" by simp
      ultimately show ?thesis
        using ys_ne 1(2) by (simp add: yss chunks_step chunks_Nil)
    qed
  qed
qed

lemma comprehension_success:
  "comprehension f xs = Inr ys \<Longrightarrow>
     length ys = length xs \<and> (\<forall>i < length xs. f (xs ! i) = Inr (ys ! i))"
proof (induction xs arbitrary: ys)
  case Nil
  then show ?case by simp
next
  case (Cons x xs)
  from Cons.prems obtain y ys' where y: "f x = Inr y"
    and tl: "comprehension f xs = Inr ys'" and ys: "ys = y # ys'"
    by (auto split: sum.splits)
  from Cons.IH [OF tl] y ys show ?case
    by (auto simp: nth_Cons split: nat.splits)
qed

lemma load_success:
  fixes env :: "'o libs"
  assumes "load env a = Inr ld"
  shows "\<exists>tokenized_dataset.
           comprehension (tokenize_row env (ld_dpo ld)) (ld_dataset ld) = Inr tokenized_dataset \<and>
           DataLoader tokenized_dataset (args_batch_size a) = Inr (ld_dataloader ld)"
  using assms unfolding load_def
  by (auto split: sum.splits prod.splits)

lemma inference_loop_by_batch:
  assumes "inference_loop env tok dpo [] batches = Inr results"
  shows "results = concat (map (\<lambda>samples. map (\<lambda>(c, r). if py_gt c r = Inr True then 1 else 0)
                                  (pairs_of_batch env tok dpo samples)) batches)"
  using inference_loop_eq [OF assms]
  by (simp add: processed_pairs_def map_concat comp_def)

lemma results_in_batch_order:
  assumes n: "0 < n"
    and loop: "inference_loop env tok dpo [] (chunks n xs) = Inr results"
    and one: "\<forall>samples \<in> set (chunks n xs).
                length (pairs_of_batch env tok dpo samples) = length samples"
  shows "length results = length xs"
    and "i < length xs \<Longrightarrow>
           results ! i = (\<lambda>(c, r). if py_gt c r = Inr True then 1 else 0)
                           (pairs_of_batch env tok dpo (chunks n xs ! (i div n)) ! (i mod n))"
proof -
  let ?out = "\<lambda>(c, r). if py_gt c r = Inr True then 1 else (0 :: int)"
  let ?rbs = "map (\<lambda>samples. map ?out (pairs_of_batch env tok dpo samples)) (chunks n xs)"
  have res: "results = concat ?rbs"
    by (rule inference_loop_by_batch [OF loop])
  from one have shape: "map length ?rbs = map length (chunks n xs)"
    by simp
  have "length results = sum_list (map length ?rbs)"
    by (simp only: res length_concat)
  also have "\<dots> = length (concat (chunks n xs))"
    by (simp only: shape length_concat)
  finally show len: "length results = length xs"
    by (simp add: concat_chunks [OF n])
  assume i: "i < length xs"
  from chunks_same_shape [OF n shape] res have cr: "chunks n results = ?rbs" by simp
  from chunks_nth [OF n, of i results] i len
  have "chunks n results ! (i div n) ! (i mod n) = results ! i" by simp
  then have a: "results ! i = ?rbs ! (i div n) ! (i mod n)" by (simp only: cr)
  from chunks_nth [OF n i] one
  have b: "?rbs ! (i div n) ! (i mod n)
          = ?out (pairs_of_batch env tok dpo (chunks n xs ! (i div n)) ! (i mod n))"
    by simp
  from a b show "results ! i = ?out (pairs_of_batch env tok dpo (chunks n xs ! (i div n)) ! (i mod n))"
    by (rule trans)
qed

lemma extract_scores_len:
  assumes "extract_scores rewards_chosen rewards_rejected = Inr (score_chosen, score_rejected)"
  shows "length score_chosen = len_rewards rewards_chosen"
    and "length score_rejected = len_rewards rewards_rejected"
proof -
  have dicts: "length sc = len_rewards r" if "scores_of_dicts r = Inr sc" for r sc
    using that comprehension_success [of get_score _ sc]
    by (cases r) (auto simp: scores_of_dicts_def split: if_splits)
  have tens: "length sc = len_rewards r" if "scores_of_tensor r = Inr sc" for r sc
    using that by (cases r) (auto simp: scores_of_tensor_def)
  show "length score_chosen = len_rewards rewards_chosen"
    using assms dicts [of rewards_chosen score_chosen]
    by (auto simp: extract_scores_def split: rewards.splits list.splits sum.splits)
  show "length score_rejected = len_rewards rewards_rejected"
    using assms dicts [of rewards_rejected score_rejected] tens [of rewards_rejected score_rejected]
    by (auto simp: extract_scores_def split: rewards.splits list.splits sum.splits)
qed

lemma loop_body_calls:
  assumes "loop_body env tok dpo acc samples = Inr rs"
  shows "\<exists>batch rewards_chosen rewards_rejected.
           collate_fn env tok dpo samples = Inr batch \<and>
           inference_step env dpo batch = Inr (rewards_chosen, rewards_rejected) \<and>
           length (pairs_of_batch env tok dpo samples)
             = min (len_rewards rewards_chosen) (len_rewards rewards_rejected)"
proof (cases "collate_fn env tok dpo samples")
  case (Inl e)
  with assms show ?thesis by (simp add: loop_body_def)
next
  case b: (Inr batch)
  show ?thesis
  proof (cases "inference_step env dpo batch")
    case (Inl e)
    with assms b show ?thesis by (simp add: loop_body_def)
  next
    case r: (Inr rw)
    obtain rc rr where rw: "rw = (rc, rr)" by (cases rw)
    show ?thesis
    proof (cases "extract_scores rc rr")
      case (Inl e)
      with assms b r rw show ?thesis by (simp add: loop_body_def)
    next
      case (Inr sc)
      obtain s1 s2 where sc: "sc = (s1, s2)" by (cases sc)
      from extract_scores_len [of rc rr s1 s2] Inr sc
      have "length s1 = len_rewards rc" "length s2 = len_rewards rr" by simp_all
      with b r rw Inr sc show ?thesis by (simp add: pairs_of_batch_def)
    qed
  qed
qed

lemma inference_loop_calls:
  assumes "inference_loop env tok dpo acc batches = Inr rs" and "samples \<in> set batches"
  shows "\<exists>acc' rs'. loop_body env tok dpo acc' samples = Inr rs'"
  using assms
proof (induction batches arbitrary: acc)
  case Nil
  then show ?case by simp
next
  case (Cons b batches)
  from Cons.prems(1) obtain r1 where b: "loop_body env tok dpo acc b = Inr r1"
    and tl: "inference_loop env tok dpo r1 batches = Inr rs"
    by (auto split: sum.splits)
  from Cons.prems(2) have "samples = b \<or> samples \<in> set batches" by auto
  then show ?case
  proof
    assume "samples = b"
    with b show ?thesis by blast
  next
    assume "samples \<in> set batches"
    from Cons.IH [OF tl this] show ?thesis .
  qed
qed

text \<open>
  Claim C3, amended. Suppose loading succeeded, the loop finished, and whenever the
  library's inference step returned for a collated batch, its two values had as many
  entries as the batch has samples. Then the batch size is
  positive, the batches are non-empty pieces of at most that size whose concatenation
  is the tokenized data set, record \<open>i\<close> sits at position \<open>i mod batch_size\<close> of batch
  \<open>i div batch_size\<close>, and the result list has one entry 0 or 1 per record, entry \<open>i\<close>
  being the outcome of the pair scored at that position of that batch.
\<close>

theorem batches_cover_dataset_in_order:
  fixes env :: "'o libs"
  assumes "load env a = Inr ld"
    and "inference_loop env (ld_tokenizer ld) (ld_dpo ld) [] (ld_dataloader ld) = Inr results"
    and "\<forall>samples \<in> set (ld_dataloader ld). \<forall>batch rewards_chosen rewards_rejected.
           collate_fn env (ld_tokenizer ld) (ld_dpo ld) samples = Inr batch \<longrightarrow>
           inference_step env (ld_dpo ld) batch = Inr (rewards_chosen, rewards_rejected) \<longrightarrow>
           len_rewards rewards_chosen = length samples \<and>
           len_rewards rewards_rejected = length samples"
  shows "0 < args_batch_size a \<and>
     (\<exists>tokenized_dataset.
        comprehension (tokenize_row env (ld_dpo ld)) (ld_dataset ld) = Inr tokenized_dataset \<and>
        concat (ld_dataloader ld) = tokenized_dataset) \<and>
     (\<forall>b \<in> set (ld_dataloader ld). b \<noteq> [] \<and> int (length b) \<le> args_batch_size a) \<and>
     length results = length (ld_dataset ld) \<and>
     set results \<subseteq> {0, 1} \<and>
     (\<forall>i < length (ld_dataset ld).
        tokenize_row env (ld_dpo ld) (ld_dataset ld ! i)
          = Inr (ld_dataloader ld ! (i div nat (args_batch_size a)) ! (i mod nat (args_batch_size a))) \<and>
        (results ! i = 1 \<longleftrightarrow>
           py_gt (fst (pairs_of_batch env (ld_tokenizer ld) (ld_dpo ld)
                         (ld_dataloader ld ! (i div nat (args_batch_size a)))
                       ! (i mod nat (args_batch_size a))))
                 (snd (pairs_of_batch env (ld_tokenizer ld) (ld_dpo ld)
                         (ld_dataloader ld ! (i div nat (args_batch_size a)))
                       ! (i mod nat (args_batch_size a)))) = Inr True))"
proof -
  let ?n = "nat (args_batch_size a)"
  have one: "\<forall>samples \<in> set (ld_dataloader ld).
           length (pairs_of_batch env (ld_tokenizer ld) (ld_dpo ld) samples) = length samples"
  proof
    fix samples assume mem: "samples \<in> set (ld_dataloader ld)"
    from inference_loop_calls [OF assms(2) mem] obtain acc' rs' where
      "loop_body env (ld_tokenizer ld) (ld_dpo ld) acc' samples = Inr rs'" by blast
    from loop_body_calls [OF this] obtain batch rewards_chosen rewards_rejected where
      c: "collate_fn env (ld_tokenizer ld) (ld_dpo ld) samples = Inr batch"
      and i: "inference_step env (ld_dpo ld) batch = Inr (rewards_chosen, rewards_rejected)"
      and l: "length (pairs_of_batch env (ld_tokenizer ld) (ld_dpo ld) samples)
             = min (len_rewards rewards_chosen) (len_rewards rewards_rejected)"
      by blast
    from assms(3) mem c i have "len_rewards rewards_chosen = length samples \<and>
           len_rewards rewards_rejected = length samples" by blast
    with l show "length (pairs_of_batch env (ld_tokenizer ld) (ld_dpo ld) samples) = length samples"
      by simp
  qed
  from load_success [OF assms(1)] obtain tokenized_dataset where
    tk: "comprehension (tokenize_row env (ld_dpo ld)) (ld_dataset ld) = Inr tokenized_dataset"
    and dl: "DataLoader tokenized_dataset (args_batch_size a) = Inr (ld_dataloader ld)"
    by blast
  from dl have pos: "0 < args_batch_size a"
    and batches: "ld_dataloader ld = chunks ?n tokenized_dataset"
    by (auto simp: DataLoader_def split: if_splits)
  from pos have n: "0 < ?n" by simp
  note cs = comprehension_success [OF tk]
  have cat: "concat (ld_dataloader ld) = tokenized_dataset"
    by (simp add: batches concat_chunks [OF n])
  have sizes: "\<forall>b \<in> set (ld_dataloader ld). b \<noteq> [] \<and> int (length b) \<le> args_batch_size a"
  proof
    fix b assume "b \<in> set (ld_dataloader ld)"
    then have "b \<noteq> [] \<and> length b \<le> ?n"
      using chunks_sizes [OF n, of b tokenized_dataset] by (simp add: batches)
    with pos show "b \<noteq> [] \<and> int (length b) \<le> args_batch_size a" by linarith
  qed
  note ord = results_in_batch_order [OF n assms(2) [unfolded batches] one [unfolded batches]]
  from ord(1) cs have len: "length results = length (ld_dataset ld)" by simp
  have zo: "set results \<subseteq> {0, 1}"
    by (rule inference_loop_zero_one [OF assms(2)])
  have each: "tokenize_row env (ld_dpo ld) (ld_dataset ld ! i)
          = Inr (ld_dataloader ld ! (i div ?n) ! (i mod ?n)) \<and>
        (results ! i = 1 \<longleftrightarrow>
           py_gt (fst (pairs_of_batch env (ld_tokenizer ld) (ld_dpo ld)
                         (ld_dataloader ld ! (i div ?n)) ! (i mod ?n)))
                 (snd (pairs_of_batch env (ld_tokenizer ld) (ld_dpo ld)
                         (ld_dataloader ld ! (i div ?n)) ! (i mod ?n))) = Inr True)"
    if i: "i < length (ld_dataset ld)" for i
  proof -
    from i cs have i': "i < length tokenized_dataset" by simp
    from chunks_nth [OF n i'] cs i
    have "tokenize_row env (ld_dpo ld) (ld_dataset ld ! i)
          = Inr (ld_dataloader ld ! (i div ?n) ! (i mod ?n))"
      by (simp add: batches)
    moreover from ord(2) [OF i']
    have "results ! i = 1 \<longleftrightarrow>
           py_gt (fst (pairs_of_batch env (ld_tokenizer ld) (ld_dpo ld)
                         (ld_dataloader ld ! (i div ?n)) ! (i mod ?n)))
                 (snd (pairs_of_batch env (ld_tokenizer ld) (ld_dpo ld)
                         (ld_dataloader ld ! (i div ?n)) ! (i mod ?n))) = Inr True"
      by (simp add: batches case_prod_beta)
    ultimately show ?thesis by simp
  qed
  from pos tk cat sizes len zo each show ?thesis by blast
qed

text \<open>The concrete run: three records in batches of two.\<close>

theorem batches_cover_dataset_in_order_witness:
  "inference_step demo_libs [] [3, 1, 2, 2]
     = Inr (Tensor [Finite 3, Finite 2], Tensor [Finite 1, Finite 2]) \<and>
   inference_step demo_libs [] [1, 2] = Inr (Tensor [Finite 1], Tensor [Finite 2]) \<and>
   inference_loop demo_libs [] [] [] [[[3, 1], [2, 2]], [[1, 2]]] = Inr [1, 0, 0] \<and>
   0 < args_batch_size (demo_args\<lparr>args_do_not_save := False\<rparr>) \<and>
   length [1, 0, 0 :: int] = length
     [\<lparr>text_chosen = ''abc'', text_rejected = ''a''\<rparr>,
      \<lparr>text_chosen = ''ab'', text_rejected = ''cd''\<rparr>,
      \<lparr>text_chosen = ''a'', text_rejected = ''bc''\<rparr>]"
proof -
  let ?ld = "\<lparr>ld_tokenizer = [], ld_dataset =
            [\<lparr>text_chosen = ''abc'', text_rejected = ''a''\<rparr>,
             \<lparr>text_chosen = ''ab'', text_rejected = ''cd''\<rparr>,
             \<lparr>text_chosen = ''a'', text_rejected = ''bc''\<rparr>],
          ld_subsets = [''b'', ''a'', ''b''], ld_dpo = [],
          ld_dataloader = [[[3, 1], [2, 2]], [[1, 2 :: nat]]]\<rparr>"
  have i1: "inference_step demo_libs [] [3, 1, 2, 2]
     = Inr (Tensor [Finite 3, Finite 2], Tensor [Finite 1, Finite 2])"
    and i2: "inference_step demo_libs [] [1, 2] = Inr (Tensor [Finite 1], Tensor [Finite 2])"
    by (simp_all add: demo_libs_def)
  have c: "collate_fn demo_libs [] [] samples = Inr (concat samples)" for samples
    by (simp add: demo_libs_def)
  have run: "inference_loop demo_libs [] [] [] [[[3, 1], [2, 2]], [[1, 2]]] = Inr [1, 0, 0]"
    by (simp add: demo_libs_def loop_body_def extract_scores_def scores_of_tensor_def)
  have one: "\<forall>samples \<in> set (ld_dataloader ?ld). \<forall>batch rewards_chosen rewards_rejected.
           collate_fn demo_libs (ld_tokenizer ?ld) (ld_dpo ?ld) samples = Inr batch \<longrightarrow>
           inference_step demo_libs (ld_dpo ?ld) batch = Inr (rewards_chosen, rewards_rejected) \<longrightarrow>
           len_rewards rewards_chosen = length samples \<and>
           len_rewards rewards_rejected = length samples"
    using i1 i2 by (auto simp: c)
  have run': "inference_loop demo_libs (ld_tokenizer ?ld) (ld_dpo ?ld) [] (ld_dataloader ?ld)
                = Inr [1, 0, 0]"
    using run by simp
  note concl = batches_cover_dataset_in_order [OF demo_load [of False] run' one]
  from concl have "0 < args_batch_size (demo_args\<lparr>args_do_not_save := False\<rparr>)"
    by (rule conjunct1)
  moreover from concl have "length [1, 0, 0 :: int] = length (ld_dataset ?ld)"
    by (elim conjE)
  ultimately show ?thesis using i1 i2 run by simp
qed

text \<open>
  An inference step that returns one score per side for a batch of two samples: the
  loop finishes with two results for three records.
\<close>

theorem batches_cover_dataset_in_order_counterexample:
  "run_inference short_libs demo_args
     = Inr ([\<lparr>text_chosen = ''abc'', text_rejected = ''a''\<rparr>,
             \<lparr>text_chosen = ''ab'', text_rejected = ''cd''\<rparr>,
             \<lparr>text_chosen = ''a'', text_rejected = ''bc''\<rparr>],
            [''b'', ''a'', ''b''], [1, 0]) \<and>
   length [1, 0 :: int] \<noteq> length
     [\<lparr>text_chosen = ''abc'', text_rejected = ''a''\<rparr>,
      \<lparr>text_chosen = ''ab'', text_rejected = ''cd''\<rparr>,
      \<lparr>text_chosen = ''a'', text_rejected = ''bc''\<rparr>]"
proof -
  have ld: "load short_libs demo_args =
     Inr \<lparr>ld_tokenizer = [], ld_dataset =
            [\<lparr>text_chosen = ''abc'', text_rejected = ''a''\<rparr>,
             \<lparr>text_chosen = ''ab'', text_rejected = ''cd''\<rparr>,
             \<lparr>text_chosen = ''a'', text_rejected = ''bc''\<rparr>],
          ld_subsets = [''b'', ''a'', ''b''], ld_dpo = [],
          ld_dataloader = [[[3, 1], [2, 2]], [[1, 2]]]\<rparr>"
    by (simp add: load_def short_libs_def demo_libs_def demo_args_def DataLoader_def
        chunks_step chunks_Nil)
  show ?thesis
    unfolding run_inference_def ld
    by (simp add: short_libs_def demo_libs_def loop_body_def extract_scores_def
        scores_of_tensor_def)
qed

subsection \<open>Exceptions of library calls\<close>











end
